theory Spec2Isabelle
  imports Complex_Main "HOL-Library.Word" "HOL-Library.AList"
begin

section \<open>Values shared by the whole parser\<close>

text \<open>
  The parser throws plain JavaScript \<open>Error\<close> objects that differ only in their message
  (\<open>assert\<close> uses the message \<open>input format error\<close> unless one is given).  Errors raised
  by the runtime or by the external collaborators (an out-of-range \<open>readUInt32BE\<close>, a
  failing \<open>inflateSync\<close>, a failing schema reader) are kept apart from them.
\<close>

datatype error =
    Error string
  | RangeError
  | ExternalError string

type_synonym byte = "8 word"

definition assert :: "bool \<Rightarrow> string option \<Rightarrow> error + unit" where
  "assert cond message =
     (if \<not> cond
      then Inl (Error (case message of None \<Rightarrow> ''input format error'' | Some m \<Rightarrow> m))
      else Inr ())"

text \<open>
  \<open>assertArrays\<close>: every wire array of the model is a list, so \<open>Array.isArray\<close> holds
  by typing and only the lengths are passed.  The running \<open>length\<close> starts at \<open>-1\<close>.
\<close>

fun assertArrays_from :: "int \<Rightarrow> nat list \<Rightarrow> error + unit" where
  "assertArrays_from len [] = Inr ()"
| "assertArrays_from len (a # as) =
     (if len < 0 then assertArrays_from (int a) as
      else (case assert (len = int a) None of
              Inl e \<Rightarrow> Inl e
            | Inr _ \<Rightarrow> assertArrays_from len as))"

definition assertArrays :: "nat list \<Rightarrow> error + unit" where
  "assertArrays args = assertArrays_from (- 1) args"

text \<open>
  A JavaScript array read \<open>xs[i]\<close>: \<open>undefined\<close> (here \<open>None\<close>) outside the array,
  never an exception.
\<close>

definition js_index :: "'a list \<Rightarrow> int \<Rightarrow> 'a option" where
  "js_index xs i = (if 0 \<le> i \<and> i < int (length xs) then Some (xs ! nat i) else None)"

section \<open>Tag-filter option: \<open>with_tags\<close>\<close>

text \<open>
  The option \<open>withTags\<close> is typed \<open>boolean | any\<close>, so any JavaScript value can arrive.
  Objects are association lists from property names to values.
\<close>

datatype js_value =
    JUndefined
  | JNull
  | JBool bool
  | JNumber int
  | JString string
  | JArray "js_value list"
  | JObject "(string \<times> js_value) list"

text \<open>
  What \<open>with_tags\<close> stores per kind: a boolean or a \<open>Set\<close> built from the given array.
\<close>

datatype tagopt = TBool bool | TSet "js_value list"

abbreviation Disabled :: tagopt where "Disabled \<equiv> TBool False"
abbreviation AllowAll :: tagopt where "AllowAll \<equiv> TBool True"
abbreviation AllowSet :: "js_value list \<Rightarrow> tagopt" where "AllowSet S \<equiv> TSet S"

text \<open>The resolved object: property names \<open>node\<close>, \<open>way\<close>, \<open>relation\<close> to their values.\<close>

type_synonym withTags = "(string \<times> tagopt) list"

text \<open>\<open>opt[k]\<close> for an \<open>opt\<close> that passed \<open>typeof opt == "object" && opt != null\<close>.\<close>

fun get_prop :: "js_value \<Rightarrow> string \<Rightarrow> js_value" where
  "get_prop (JObject ps) k = (case map_of ps k of None \<Rightarrow> JUndefined | Some v \<Rightarrow> v)"
| "get_prop _ k = JUndefined"

text \<open>\<open>a ?? b\<close>\<close>

fun nullish :: "js_value \<Rightarrow> js_value \<Rightarrow> js_value" where
  "nullish JUndefined d = d"
| "nullish JNull d = d"
| "nullish v d = v"

text \<open>
  The loop over \<open>["node", "way", "relation"]\<close>; \<open>None\<close> is \<open>result = null; break\<close>.
\<close>

fun with_tags_loop :: "js_value \<Rightarrow> string list \<Rightarrow> withTags \<Rightarrow> withTags option" where
  "with_tags_loop opt [] result = Some result"
| "with_tags_loop opt (k # ks) result =
     (case nullish (get_prop opt k) (JBool True) of
        JBool b \<Rightarrow> with_tags_loop opt ks (AList.update k (TBool b) result)
      | JArray b \<Rightarrow>
          with_tags_loop opt ks
            (AList.update k (if length b > 0 then TSet b else TBool False) result)
      | _ \<Rightarrow> None)"

text \<open>\<open>typeof opt == "object" && opt != null\<close>\<close>

fun is_object :: "js_value \<Rightarrow> bool" where
  "is_object (JArray _) = True"
| "is_object (JObject _) = True"
| "is_object _ = False"

text \<open>
  \<open>with_tags\<close>.  \<open>result\<close> starts as the empty object, which is truthy: only the
  \<open>break\<close> of the loop makes it \<open>null\<close> and reaches the \<open>throw\<close>.
\<close>

definition with_tags :: "js_value \<Rightarrow> error + withTags" where
  "with_tags opt =
     (case opt of
        JBool b \<Rightarrow> Inr [(''node'', TBool b), (''way'', TBool b), (''relation'', TBool b)]
      | _ \<Rightarrow>
         (case (if is_object opt
                then with_tags_loop opt [''node'', ''way'', ''relation''] []
                else Some [])
          of Some result \<Rightarrow> Inr result
           | None \<Rightarrow> Inl (Error ''wrong withTags option.'')))"

text \<open>
  The options of the constructor and the part of the instance that the parser reads
  (\<open>this.with\<close>).  \<open>None\<close> is an option left \<open>undefined\<close>.
\<close>

record osmopts =
  o_withTags :: "js_value"
  o_withInfo :: "bool option"
  o_writeRaw :: "bool option"

record osm_with =
  withTags :: withTags
  withInfo :: bool
  writeRaw :: bool

definition new_with :: "osmopts \<Rightarrow> error + osm_with" where
  "new_with osmopts =
     (case with_tags (nullish (o_withTags osmopts) (JBool True)) of
        Inl e \<Rightarrow> Inl e
      | Inr wt \<Rightarrow>
          Inr \<lparr> withTags = wt,
                withInfo = (case o_withInfo osmopts of None \<Rightarrow> False | Some b \<Rightarrow> b),
                writeRaw = (case o_writeRaw osmopts of None \<Rightarrow> False | Some b \<Rightarrow> b) \<rparr>)"

text \<open>
  \<open>data.withTags.node\<close> and its siblings: \<open>None\<close> when the property is missing.
\<close>

definition kind_opt :: "withTags \<Rightarrow> string \<Rightarrow> tagopt option" where
  "kind_opt wt k = map_of wt k"

section \<open>Wire records\<close>

text \<open>
  The schema module \<open>proto/osmformat\<close> is not part of the sources at hand.  The records
  below hold exactly the fields the parser reads from the decoded messages; numbers are
  mathematical integers (the doubles of the program are exact on them below \<open>2^53\<close>) and
  coordinates are reals, so rounding is not modelled.  The string table is taken after
  its \<open>toString("utf8")\<close> step.
\<close>

record Info =
  i_version :: int
  i_timestamp :: int
  i_changeset :: int
  i_uid :: int
  i_user_sid :: int
  i_visible :: "bool option"

record Node =
  n_id :: int
  n_lat :: int
  n_lon :: int
  n_keys :: "int list"
  n_vals :: "int list"
  n_info :: "Info option"

record Way =
  w_id :: int
  w_refs :: "int list"
  w_keys :: "int list"
  w_vals :: "int list"
  w_info :: "Info option"

record Relation =
  r_id :: int
  r_memids :: "int list"
  r_types :: "int list"
  r_roles_sid :: "int list"
  r_keys :: "int list"
  r_vals :: "int list"
  r_info :: "Info option"

record DenseInfo =
  di_version :: "int list"
  di_timestamp :: "int list"
  di_changeset :: "int list"
  di_uid :: "int list"
  di_user_sid :: "int list"
  di_visible :: "bool list"

record DenseNodes =
  d_id :: "int list"
  d_lat :: "int list"
  d_lon :: "int list"
  d_keys_vals :: "int list"
  d_denseinfo :: "DenseInfo option"

record PrimitiveGroup =
  g_nodes :: "Node list"
  g_dense :: "DenseNodes option"
  g_ways :: "Way list"
  g_relations :: "Relation list"
  g_changesets :: "int list"

record PrimitiveBlock =
  b_stringtable :: "string list"
  b_primitivegroup :: "PrimitiveGroup list"
  b_granularity :: int
  b_lat_offset :: int
  b_lon_offset :: int
  b_date_granularity :: int

text \<open>
  \<open>data\<close> after \<open>parse\<close> has rewritten it: the decoded strings, the scale parameters and
  the two options.
\<close>

record data =
  strings :: "string list"
  date_granularity :: int
  granularity :: real
  lat_offset :: real
  lon_offset :: real
  dataTags :: withTags
  dataInfo :: bool

section \<open>Emitted entities\<close>

text \<open>
  An optional field that is \<open>undefined\<close> is \<open>None\<close>.  A tags object is an association
  list from property names to values; a value can itself be \<open>undefined\<close> (a string-table
  read outside the table).
\<close>

type_synonym tags = "(string \<times> string option) list"

record info_out =
  version :: "int option"
  timestamp :: "int option"
  changeset :: "int option"
  uid :: "int option"
  user :: "string option"
  visible :: "bool option"

record node_out =
  node_id :: int
  node_lat :: real
  node_lon :: real
  node_tags :: "tags option"
  node_info :: "info_out option"

record way_out =
  way_id :: int
  way_refs :: "int list"
  way_tags :: "tags option"
  way_info :: "info_out option"

record member =
  m_type :: "string option"
  m_ref :: int
  m_role :: "string option"

record rel_out =
  rel_id :: int
  rel_members :: "member list"
  rel_tags :: "tags option"
  rel_info :: "info_out option"

datatype entity = NodeE node_out | WayE way_out | RelationE rel_out

section \<open>\<open>fill_info\<close> and the tag block\<close>

definition memberTypes :: "string list" where
  "memberTypes = [''node'', ''way'', ''relation'']"

definition empty_info :: info_out where
  "empty_info = \<lparr> version = None, timestamp = None, changeset = None, uid = None,
                   user = None, visible = None \<rparr>"

text \<open>\<open>isEmpty\<close>: no enumerable property.\<close>

definition isEmpty_info :: "info_out \<Rightarrow> bool" where
  "isEmpty_info ret = (ret = empty_info)"

definition isEmpty_tags :: "tags \<Rightarrow> bool" where
  "isEmpty_tags t = (t = [])"

text \<open>
  \<open>fill_info\<close> of \<open>parser.ts\<close>, statement by statement.  \<open>if (s)\<close> holds for a non-empty
  string only.
\<close>

definition fill_info :: "data \<Rightarrow> Info \<Rightarrow> info_out" where
  "fill_info dat info =
     (let ret = empty_info;
          ret = (if i_version info \<noteq> 0 then ret\<lparr>version := Some (i_version info)\<rparr> else ret);
          ret = (if i_timestamp info \<noteq> 0
                 then ret\<lparr>timestamp := Some (i_timestamp info * date_granularity dat)\<rparr>
                 else ret);
          ret = (if i_changeset info \<noteq> 0 then ret\<lparr>changeset := Some (i_changeset info)\<rparr>
                 else ret);
          ret = (if i_uid info \<noteq> 0 then ret\<lparr>uid := Some (i_uid info)\<rparr> else ret);
          ret = (if i_user_sid info \<noteq> 0
                 then (case js_index (strings dat) (i_user_sid info) of
                         None \<Rightarrow> ret
                       | Some s \<Rightarrow> if s \<noteq> [] then ret\<lparr>user := Some s\<rparr> else ret)
                 else ret);
          ret = (if i_visible info = Some False then ret\<lparr>visible := Some False\<rparr> else ret)
      in ret)"

text \<open>\<open>if (data.withInfo && x.info) { ...; if (!isEmpty(info)) x.info = info }\<close>\<close>

definition info_block :: "data \<Rightarrow> Info option \<Rightarrow> info_out option" where
  "info_block dat wire =
     (case wire of
        None \<Rightarrow> None
      | Some i \<Rightarrow>
          if dataInfo dat
          then (let info = fill_info dat i in if \<not> isEmpty_info info then Some info else None)
          else None)"

text \<open>
  Property names: \<open>tags[key] = val\<close> with an \<open>undefined\<close> key writes the property
  \<open>"undefined"\<close>.
\<close>

definition prop_name :: "string option \<Rightarrow> string" where
  "prop_name key = (case key of None \<Rightarrow> ''undefined'' | Some k \<Rightarrow> k)"

text \<open>\<open>filter.has(key)\<close> on the \<open>Set\<close> built from the configured array.\<close>

definition set_has :: "js_value list \<Rightarrow> string option \<Rightarrow> bool" where
  "set_has S key = (case key of None \<Rightarrow> JUndefined \<in> set S | Some k \<Rightarrow> JString k \<in> set S)"

text \<open>
  \<open>!filter || filter.has(key)\<close>, where \<open>filter\<close> is \<open>false\<close> when the option is \<open>true\<close> and
  the option itself otherwise.  The test is only reached for a truthy option.
\<close>

definition passes :: "tagopt \<Rightarrow> string option \<Rightarrow> bool" where
  "passes opt key = (case opt of TBool _ \<Rightarrow> True | TSet S \<Rightarrow> set_has S key)"

definition truthy :: "tagopt option \<Rightarrow> bool" where
  "truthy x = (case x of None \<Rightarrow> False | Some (TBool b) \<Rightarrow> b | Some (TSet _) \<Rightarrow> True)"

text \<open>
  \<open>tags[key] = val\<close> on the plain object \<open>tags = {}\<close>.  The name \<open>__proto__\<close> is the accessor
  that \<open>Object.prototype\<close> supplies: its setter ignores a value that is neither an object
  nor \<open>null\<close>, and \<open>val\<close> is a string or \<open>undefined\<close>, so the assignment creates no property.
  Under every other name the assignment creates an own property or overwrites it.  The
  order of the list carries no meaning.
\<close>

definition set_prop :: "string \<Rightarrow> string option \<Rightarrow> tags \<Rightarrow> tags" where
  "set_prop name val t = (if name = ''__proto__'' then t else AList.update name val t)"

text \<open>One round of the tag loop of the plain decoders.\<close>

definition put_tag :: "string list \<Rightarrow> tagopt \<Rightarrow> tags \<Rightarrow> int \<Rightarrow> int \<Rightarrow> tags" where
  "put_tag strs opt t k v =
     (let key = js_index strs k; val = js_index strs v
      in if passes opt key then set_prop (prop_name key) val t else t)"

text \<open>
  \<open>for (let i = 0; i < keys.length; i++)\<close>, run after \<open>assertArrays(keys, vals)\<close>, so both
  lists are walked together.
\<close>

fun tag_loop :: "string list \<Rightarrow> tagopt \<Rightarrow> tags \<Rightarrow> int list \<Rightarrow> int list \<Rightarrow> tags" where
  "tag_loop strs opt t (k # ks) (v # vs) = tag_loop strs opt (put_tag strs opt t k v) ks vs"
| "tag_loop strs opt t _ _ = t"

text \<open>
  The block \<open>if (data.withTags.K) { assertArrays(keys, vals); ...;
  if (!isEmpty(tags)) x.tags = tags }\<close>, which \<open>parse_node\<close>, \<open>parse_way\<close> and \<open>parse_rel\<close>
  repeat word for word with \<open>K\<close> their own kind.
\<close>

definition tags_block :: "data \<Rightarrow> string \<Rightarrow> int list \<Rightarrow> int list \<Rightarrow> error + tags option" where
  "tags_block dat kind keys vals =
     (case kind_opt (dataTags dat) kind of
        None \<Rightarrow> Inr None
      | Some opt \<Rightarrow>
          if truthy (Some opt)
          then (case assertArrays [length keys, length vals] of
                  Inl e \<Rightarrow> Inl e
                | Inr _ \<Rightarrow>
                    (let t = tag_loop (strings dat) opt [] keys vals
                     in Inr (if \<not> isEmpty_tags t then Some t else None)))
          else Inr None)"

section \<open>Plain decoders\<close>

text \<open>
  \<open>offset + raw / data.granularity\<close>.  The divisor set by \<open>parse\<close> is \<open>1e7\<close> or \<open>1e9\<close> over a
  non-zero integer, hence not 0; a division by 0, which would give an infinity or a
  not-a-number in the program, is outside the model.
\<close>

definition scale :: "data \<Rightarrow> real \<Rightarrow> int \<Rightarrow> real" where
  "scale dat off raw = off + real_of_int raw / granularity dat"

definition parse_node :: "data \<Rightarrow> Node \<Rightarrow> error + node_out" where
  "parse_node dat n =
     (case tags_block dat ''node'' (n_keys n) (n_vals n) of
        Inl e \<Rightarrow> Inl e
      | Inr t \<Rightarrow>
          Inr \<lparr> node_id = n_id n,
                node_lat = scale dat (lat_offset dat) (n_lat n),
                node_lon = scale dat (lon_offset dat) (n_lon n),
                node_tags = t,
                node_info = info_block dat (n_info n) \<rparr>)"

text \<open>\<open>refs[i] = ref += w.refs[i]\<close>\<close>

fun refs_loop :: "int \<Rightarrow> int list \<Rightarrow> int list" where
  "refs_loop ref [] = []"
| "refs_loop ref (x # xs) = (ref + x) # refs_loop (ref + x) xs"

definition parse_way :: "data \<Rightarrow> Way \<Rightarrow> error + way_out" where
  "parse_way dat w =
     (let refs = refs_loop 0 (w_refs w)
      in case tags_block dat ''way'' (w_keys w) (w_vals w) of
           Inl e \<Rightarrow> Inl e
         | Inr t \<Rightarrow>
             Inr \<lparr> way_id = w_id w, way_refs = refs, way_tags = t,
                   way_info = info_block dat (w_info w) \<rparr>)"

text \<open>
  The member loop runs after \<open>assertArrays(r.memids, r.types, r.roles_sid)\<close>, so the three
  lists are walked together.  \<open>memberTypes[r.types[i]]\<close> is a plain array read.
\<close>

fun members_loop :: "string list \<Rightarrow> int \<Rightarrow> int list \<Rightarrow> int list \<Rightarrow> int list \<Rightarrow> member list" where
  "members_loop strs ref (m # ms) (t # ts) (r # rs) =
     \<lparr> m_type = js_index memberTypes t, m_ref = ref + m, m_role = js_index strs r \<rparr>
       # members_loop strs (ref + m) ms ts rs"
| "members_loop strs ref _ _ _ = []"

definition parse_rel :: "data \<Rightarrow> Relation \<Rightarrow> error + rel_out" where
  "parse_rel dat r =
     (case assertArrays [length (r_memids r), length (r_types r), length (r_roles_sid r)] of
        Inl e \<Rightarrow> Inl e
      | Inr _ \<Rightarrow>
          (let members = members_loop (strings dat) 0 (r_memids r) (r_types r) (r_roles_sid r)
           in case tags_block dat ''relation'' (r_keys r) (r_vals r) of
                Inl e \<Rightarrow> Inl e
              | Inr t \<Rightarrow>
                  Inr \<lparr> rel_id = r_id r, rel_members = members, rel_tags = t,
                        rel_info = info_block dat (r_info r) \<rparr>))"

section \<open>Dense decoder\<close>

text \<open>
  \<open>strings[dense.keys_vals[j]]\<close>: an index read outside \<open>keys_vals\<close> is \<open>undefined\<close>, and
  so is the string read with it.
\<close>

definition kv_string :: "string list \<Rightarrow> int list \<Rightarrow> int \<Rightarrow> string option" where
  "kv_string strs kv j = (case js_index kv j of None \<Rightarrow> None | Some k \<Rightarrow> js_index strs k)"

text \<open>
  \<open>while (dense.keys_vals[j] !== 0) { ...; j += 2 }\<close>.  Nothing bounds \<open>j\<close>: past the end
  of the array the read is \<open>undefined\<close>, which is not \<open>0\<close>, and the loop goes on.  The
  function is therefore partial; \<open>None\<close> is a loop that never ends.
\<close>

partial_function (option) dense_tags ::
  "string list \<Rightarrow> tagopt \<Rightarrow> int list \<Rightarrow> int \<Rightarrow> tags \<Rightarrow> (tags \<times> int) option" where
  "dense_tags strs opt kv j t =
     (if js_index kv j = Some 0 then Some (t, j)
      else (let key = kv_string strs kv j; val = kv_string strs kv (j + 1)
            in dense_tags strs opt kv (j + 2)
                 (if passes opt key then set_prop (prop_name key) val t else t)))"

declare dense_tags.simps [code]

text \<open>The variables that \<open>parse_dense\<close> carries from one node to the next.\<close>

record dense_acc =
  a_id :: int
  a_lat :: int
  a_lon :: int
  a_timestamp :: int
  a_changeset :: int
  a_uid :: int
  a_user_sid :: int
  a_j :: int

definition dense_init :: dense_acc where
  "dense_init = \<lparr> a_id = 0, a_lat = 0, a_lon = 0, a_timestamp = 0, a_changeset = 0,
                   a_uid = 0, a_user_sid = 0, a_j = 0 \<rparr>"

text \<open>
  The tag part of one round: \<open>if (data.withTags.node && dense.keys_vals.length > 0)\<close>.
  It yields the node's \<open>tags\<close> field and the cursor \<open>j\<close> after \<open>j++\<close>.
\<close>

definition dense_node_tags :: "data \<Rightarrow> DenseNodes \<Rightarrow> int \<Rightarrow> (tags option \<times> int) option" where
  "dense_node_tags dat dense j =
     (case kind_opt (dataTags dat) ''node'' of
        None \<Rightarrow> Some (None, j)
      | Some opt \<Rightarrow>
          if truthy (Some opt) \<and> length (d_keys_vals dense) > 0
          then (case dense_tags (strings dat) opt (d_keys_vals dense) j [] of
                  None \<Rightarrow> None
                | Some (t, j') \<Rightarrow> Some (if \<not> isEmpty_tags t then Some t else None, j' + 1))
          else Some (None, j))"

text \<open>
  The info part of one round: \<open>if (data.withInfo && dinfo)\<close>.  \<open>visible\<close> is not among the
  arrays handed to \<open>assertArrays\<close>; \<open>dinfo.visible[i]\<close> is a plain array read.
\<close>

definition dense_node_info ::
  "data \<Rightarrow> DenseNodes \<Rightarrow> nat \<Rightarrow> dense_acc \<Rightarrow> error + (info_out option \<times> dense_acc)" where
  "dense_node_info dat dense i a =
     (case (if dataInfo dat then d_denseinfo dense else None) of
        None \<Rightarrow> Inr (None, a)
      | Some dinfo \<Rightarrow>
          (case assertArrays [length (d_id dense), length (di_timestamp dinfo),
                              length (di_changeset dinfo), length (di_uid dinfo),
                              length (di_user_sid dinfo), length (di_version dinfo)] of
             Inl e \<Rightarrow> Inl e
           | Inr _ \<Rightarrow>
               (let a = a\<lparr> a_timestamp := a_timestamp a + di_timestamp dinfo ! i,
                          a_changeset := a_changeset a + di_changeset dinfo ! i,
                          a_uid := a_uid a + di_uid dinfo ! i,
                          a_user_sid := a_user_sid a + di_user_sid dinfo ! i \<rparr>;
                    info = fill_info dat
                             \<lparr> i_version = di_version dinfo ! i,
                               i_timestamp = a_timestamp a,
                               i_changeset = a_changeset a,
                               i_uid = a_uid a,
                               i_user_sid = a_user_sid a,
                               i_visible = js_index (di_visible dinfo) (int i) \<rparr>
                in Inr (if \<not> isEmpty_info info then Some info else None, a))))"

text \<open>One round of the \<open>for\<close> loop, for an index \<open>i\<close> below \<open>dense.id.length\<close>.\<close>

definition dense_node ::
  "data \<Rightarrow> DenseNodes \<Rightarrow> nat \<Rightarrow> dense_acc \<Rightarrow> (error + node_out \<times> dense_acc) option" where
  "dense_node dat dense i a =
     (let a = a\<lparr> a_id := a_id a + d_id dense ! i,
                a_lat := a_lat a + d_lat dense ! i,
                a_lon := a_lon a + d_lon dense ! i \<rparr>
      in case dense_node_tags dat dense (a_j a) of
           None \<Rightarrow> None
         | Some (t, j) \<Rightarrow>
             (case dense_node_info dat dense i (a\<lparr> a_j := j \<rparr>) of
                Inl e \<Rightarrow> Some (Inl e)
              | Inr (nfo, a) \<Rightarrow>
                  Some (Inr (\<lparr> node_id = a_id a,
                               node_lat = scale dat (lat_offset dat) (a_lat a),
                               node_lon = scale dat (lon_offset dat) (a_lon a),
                               node_tags = t,
                               node_info = nfo \<rparr>, a))))"

fun dense_loop ::
  "data \<Rightarrow> DenseNodes \<Rightarrow> nat list \<Rightarrow> dense_acc \<Rightarrow> (error + node_out list) option" where
  "dense_loop dat dense [] a = Some (Inr [])"
| "dense_loop dat dense (i # rest) a =
     (case dense_node dat dense i a of
        None \<Rightarrow> None
      | Some (Inl e) \<Rightarrow> Some (Inl e)
      | Some (Inr (node, a')) \<Rightarrow>
          (case dense_loop dat dense rest a' of
             None \<Rightarrow> None
           | Some (Inl e) \<Rightarrow> Some (Inl e)
           | Some (Inr nodes) \<Rightarrow> Some (Inr (node # nodes))))"

definition parse_dense :: "data \<Rightarrow> DenseNodes \<Rightarrow> (error + node_out list) option" where
  "parse_dense dat dense =
     (case assertArrays [length (d_id dense), length (d_lat dense), length (d_lon dense)] of
        Inl e \<Rightarrow> Some (Inl e)
      | Inr _ \<Rightarrow> dense_loop dat dense [0 ..< length (d_id dense)] dense_init)"

section \<open>\<open>parse\<close>\<close>

text \<open>A \<open>for\<close> loop that pushes the result of a decoder which may throw.\<close>

fun each :: "('a \<Rightarrow> error + 'b) \<Rightarrow> 'a list \<Rightarrow> error + 'b list" where
  "each f [] = Inr []"
| "each f (x # xs) =
     (case f x of
        Inl e \<Rightarrow> Inl e
      | Inr y \<Rightarrow> (case each f xs of Inl e \<Rightarrow> Inl e | Inr ys \<Rightarrow> Inr (y # ys)))"

text \<open>
  The rewriting of the decoded block, for a \<open>that\<close> which is the transform itself (the
  only caller in the sources).
\<close>

definition block_data :: "osm_with \<Rightarrow> PrimitiveBlock \<Rightarrow> data" where
  "block_data w b =
     \<lparr> strings = b_stringtable b,
       date_granularity = (if b_date_granularity b = 0 then 1000 else b_date_granularity b),
       granularity = (if b_granularity b = 0 \<or> b_granularity b = 100 then 10000000
                      else 1000000000 / real_of_int (b_granularity b)),
       lat_offset = real_of_int (b_lat_offset b) * (1 / 1000000000),
       lon_offset = real_of_int (b_lon_offset b) * (1 / 1000000000),
       dataTags = withTags w,
       dataInfo = withInfo w \<rparr>"

definition parse_group :: "data \<Rightarrow> PrimitiveGroup \<Rightarrow> (error + entity list) option" where
  "parse_group dat p =
     (if length (g_changesets p) > 0 then Some (Inl (Error ''changesets not implemented''))
      else case each (parse_node dat) (g_nodes p) of
             Inl e \<Rightarrow> Some (Inl e)
           | Inr ns \<Rightarrow>
              (case (case g_dense p of None \<Rightarrow> Some (Inr []) | Some d \<Rightarrow> parse_dense dat d) of
                 None \<Rightarrow> None
               | Some (Inl e) \<Rightarrow> Some (Inl e)
               | Some (Inr ds) \<Rightarrow>
                  (case each (parse_way dat) (g_ways p) of
                     Inl e \<Rightarrow> Some (Inl e)
                   | Inr ws \<Rightarrow>
                      (case each (parse_rel dat) (g_relations p) of
                         Inl e \<Rightarrow> Some (Inl e)
                       | Inr rs \<Rightarrow>
                           Some (Inr (map NodeE ns @ map NodeE ds @ map WayE ws
                                      @ map RelationE rs))))))"

fun parse_groups :: "data \<Rightarrow> PrimitiveGroup list \<Rightarrow> (error + entity list) option" where
  "parse_groups dat [] = Some (Inr [])"
| "parse_groups dat (p # ps) =
     (case parse_group dat p of
        None \<Rightarrow> None
      | Some (Inl e) \<Rightarrow> Some (Inl e)
      | Some (Inr es) \<Rightarrow>
          (case parse_groups dat ps of
             None \<Rightarrow> None
           | Some (Inl e) \<Rightarrow> Some (Inl e)
           | Some (Inr es') \<Rightarrow> Some (Inr (es @ es'))))"

section \<open>External collaborators\<close>

text \<open>
  The wire reader (package \<open>pbf\<close>), \<open>inflateSync\<close> and the schema readers of
  \<open>proto/osmformat\<close> are not part of the sources; they are parameters.  A field of a
  message is given by what the reader's operations return on it: its tag, the result of
  \<open>readVarint(true)\<close>, of \<open>readBytes()\<close> and of \<open>readString()\<close>.
\<close>

record pbf_field =
  f_tag :: nat
  f_varint :: int
  f_bytes :: "byte list"
  f_string :: string

record 'h env =
  readFields :: "byte list \<Rightarrow> error + pbf_field list"
  inflateSync :: "byte list \<Rightarrow> error + byte list"
  HeaderBlock_read :: "byte list \<Rightarrow> error + 'h"
  PrimitiveBlock_read :: "byte list \<Rightarrow> error + PrimitiveBlock"

text \<open>The two cursors of the \<open>Pbf\<close> object that \<open>_transform\<close> creates on the buffer.\<close>

record pbf =
  pos :: int
  plength :: int

definition advance :: "int \<Rightarrow> pbf \<Rightarrow> pbf" where
  "advance step p = p\<lparr> pos := plength p, plength := plength p + step \<rparr>"

text \<open>The bytes from \<open>pbf.pos\<close> up to \<open>pbf.length\<close>.\<close>

definition window :: "byte list \<Rightarrow> pbf \<Rightarrow> byte list" where
  "window buf p =
     (if pos p < plength p then take (nat (plength p - pos p)) (drop (nat (pos p)) buf)
      else [])"

text \<open>
  \<open>pbf.readFields(readField, result)\<close>: the reader's loop runs while \<open>pos < length\<close>, so
  on an empty window \<open>result\<close> comes back untouched.
\<close>

definition pbf_readFields ::
  "'h env \<Rightarrow> (pbf_field \<Rightarrow> 'a \<Rightarrow> 'a) \<Rightarrow> 'a \<Rightarrow> byte list \<Rightarrow> pbf \<Rightarrow> error + 'a" where
  "pbf_readFields env readField result buf p =
     (if pos p < plength p
      then (case readFields env (window buf p) of
              Inl e \<Rightarrow> Inl e
            | Inr fs \<Rightarrow> Inr (fold readField fs result))
      else Inr result)"

section \<open>\<open>proto/fileformat\<close>\<close>

record IBlob =
  raw_size :: int
  raw :: "byte list option"
  data :: "string option"
  zlib_data :: "byte list option"
  lzma_data :: "byte list option"
  OBSOLETE_bzip2_data :: "byte list option"
  lz4_data :: "byte list option"
  zstd_data :: "byte list option"

record IBlobHeader =
  htype :: string
  indexdata :: "byte list option"
  datasize :: int

definition Blob_init :: IBlob where
  "Blob_init = \<lparr> raw_size = 0, raw = None, data = None, zlib_data = None, lzma_data = None,
                  OBSOLETE_bzip2_data = None, lz4_data = None, zstd_data = None \<rparr>"

definition Blob_readField :: "pbf_field \<Rightarrow> IBlob \<Rightarrow> IBlob" where
  "Blob_readField f obj =
     (if f_tag f = 2 then obj\<lparr> raw_size := f_varint f \<rparr>
      else if f_tag f = 1 then obj\<lparr> raw := Some (f_bytes f), data := Some ''raw'' \<rparr>
      else if f_tag f = 3 then obj\<lparr> zlib_data := Some (f_bytes f), data := Some ''zlib_data'' \<rparr>
      else if f_tag f = 4 then obj\<lparr> lzma_data := Some (f_bytes f), data := Some ''lzma_data'' \<rparr>
      else if f_tag f = 5
        then obj\<lparr> OBSOLETE_bzip2_data := Some (f_bytes f), data := Some ''OBSOLETE_bzip2_data'' \<rparr>
      else if f_tag f = 6 then obj\<lparr> lz4_data := Some (f_bytes f), data := Some ''lz4_data'' \<rparr>
      else if f_tag f = 7 then obj\<lparr> zstd_data := Some (f_bytes f), data := Some ''zstd_data'' \<rparr>
      else obj)"

definition Blob_read :: "'h env \<Rightarrow> byte list \<Rightarrow> pbf \<Rightarrow> error + IBlob" where
  "Blob_read env buf p = pbf_readFields env Blob_readField Blob_init buf p"

definition BlobHeader_init :: IBlobHeader where
  "BlobHeader_init = \<lparr> htype = [], indexdata = None, datasize = 0 \<rparr>"

definition BlobHeader_readField :: "pbf_field \<Rightarrow> IBlobHeader \<Rightarrow> IBlobHeader" where
  "BlobHeader_readField f obj =
     (if f_tag f = 1 then obj\<lparr> htype := f_string f \<rparr>
      else if f_tag f = 2 then obj\<lparr> indexdata := Some (f_bytes f) \<rparr>
      else if f_tag f = 3 then obj\<lparr> datasize := f_varint f \<rparr>
      else obj)"

definition BlobHeader_read :: "'h env \<Rightarrow> byte list \<Rightarrow> pbf \<Rightarrow> error + IBlobHeader" where
  "BlobHeader_read env buf p = pbf_readFields env BlobHeader_readField BlobHeader_init buf p"

section \<open>\<open>OSMTransform\<close>\<close>

text \<open>
  The fields of the instance that \<open>_transform\<close> and \<open>_flush\<close> use.  \<open>buffer\<close> is \<open>None\<close>
  until the first chunk.  \<open>status\<close> is the program's number: 0 header length, 1 header,
  2 OSMHeader, 3 OSMData.
\<close>

record frame =
  buffer :: "byte list option"
  offset :: int
  status :: nat
  needed :: int

definition frame_init :: frame where
  "frame_init = \<lparr> buffer = None, offset = 0, status = 0, needed = 4 \<rparr>"

text \<open>What \<open>this.push\<close> receives.\<close>

datatype 'h pushed = HeaderOut 'h | RawOut "byte list" | BatchOut "entity list"

definition readUInt32BE :: "byte list \<Rightarrow> int \<Rightarrow> error + int" where
  "readUInt32BE buf off =
     (if 0 \<le> off \<and> off + 4 \<le> int (length buf)
      then Inr (int (unat (buf ! nat off)) * 16777216
                + int (unat (buf ! (nat off + 1))) * 65536
                + int (unat (buf ! (nat off + 2))) * 256
                + int (unat (buf ! (nat off + 3))))
      else Inl RangeError)"

definition not_implemented :: "IBlob \<Rightarrow> string" where
  "not_implemented blob =
     ''inflating '' @ (case data blob of None \<Rightarrow> ''null'' | Some d \<Rightarrow> d) @ '' not implemented''"

text \<open>\<open>parse(buf, this)\<close>; \<open>None\<close> when the dense tag loop never ends.\<close>

definition parse :: "'h env \<Rightarrow> osm_with \<Rightarrow> byte list \<Rightarrow> (error + entity list) option" where
  "parse env w buf =
     (case PrimitiveBlock_read env buf of
        Inl e \<Rightarrow> Some (Inl e)
      | Inr b \<Rightarrow> parse_groups (block_data w b) (b_primitivegroup b))"

text \<open>
  One round of \<open>while (true)\<close> past the test for missing bytes, one definition per branch.
  The result is the list of pushed values and then either \<open>None\<close> (the round never ends),
  an error, or the cursors and fields for the next round.
\<close>

definition step0 ::
  "byte list \<Rightarrow> pbf \<Rightarrow> frame \<Rightarrow> 'h pushed list \<times> (error + pbf \<times> frame) option" where
  "step0 buf p s =
     (let p = advance 4 p
      in case readUInt32BE buf (offset s) of
           Inl e \<Rightarrow> ([], Some (Inl e))
         | Inr l \<Rightarrow>
             (let p = advance l p
              in ([], Some (Inr (p, s\<lparr> offset := offset s + needed s, needed := l,
                                        status := 1 \<rparr>)))))"

definition step1 ::
  "'h env \<Rightarrow> byte list \<Rightarrow> pbf \<Rightarrow> frame \<Rightarrow> 'h pushed list \<times> (error + pbf \<times> frame) option" where
  "step1 env buf p s =
     (case BlobHeader_read env buf p of
        Inl e \<Rightarrow> ([], Some (Inl e))
      | Inr header \<Rightarrow>
          (case assert (htype header = ''OSMHeader'' \<or> htype header = ''OSMData'')
                       (Some ''input sequence error'') of
             Inl e \<Rightarrow> ([], Some (Inl e))
           | Inr _ \<Rightarrow>
               ([], Some (Inr (advance (datasize header) p,
                               s\<lparr> offset := offset s + needed s, needed := datasize header,
                                  status := (if htype header = ''OSMHeader'' then 2 else 3) \<rparr>)))))"

definition step2 ::
  "'h env \<Rightarrow> byte list \<Rightarrow> pbf \<Rightarrow> frame \<Rightarrow> 'h pushed list \<times> (error + pbf \<times> frame) option" where
  "step2 env buf p s =
     (case Blob_read env buf p of
        Inl e \<Rightarrow> ([], Some (Inl e))
      | Inr blob \<Rightarrow>
          (case (case zlib_data blob of
                   Some z \<Rightarrow> (case inflateSync env z of Inl e \<Rightarrow> Inl e | Inr b \<Rightarrow> Inr (Some b))
                 | None \<Rightarrow> Inr (raw blob)) of
             Inl e \<Rightarrow> ([], Some (Inl e))
           | Inr None \<Rightarrow> ([], Some (Inl (Error (not_implemented blob))))
           | Inr (Some b) \<Rightarrow>
               (case HeaderBlock_read env b of
                  Inl e \<Rightarrow> ([], Some (Inl e))
                | Inr header \<Rightarrow>
                    ([HeaderOut header],
                     Some (Inr (p, s\<lparr> offset := offset s + needed s, needed := 4,
                                       status := 0 \<rparr>))))))"

definition step3 ::
  "'h env \<Rightarrow> osm_with \<Rightarrow> byte list \<Rightarrow> pbf \<Rightarrow> frame
     \<Rightarrow> 'h pushed list \<times> (error + pbf \<times> frame) option" where
  "step3 env w buf p s =
     (case Blob_read env buf p of
        Inl e \<Rightarrow> ([], Some (Inl e))
      | Inr blob \<Rightarrow>
          (case zlib_data blob of
             None \<Rightarrow> ([], Some (Inl (Error (not_implemented blob))))
           | Some z \<Rightarrow>
               (let s' = s\<lparr> offset := offset s + needed s, needed := 4, status := 0 \<rparr>
                in if writeRaw w then ([RawOut z], Some (Inr (p, s')))
                   else (case inflateSync env z of
                           Inl e \<Rightarrow> ([], Some (Inl e))
                         | Inr b \<Rightarrow>
                             (case parse env w b of
                                None \<Rightarrow> ([], None)
                              | Some (Inl e) \<Rightarrow> ([], Some (Inl e))
                              | Some (Inr batch) \<Rightarrow> ([BatchOut batch], Some (Inr (p, s'))))))))"

text \<open>
  With a \<open>status\<close> outside 0..3 no branch is taken, nothing changes and \<open>while (true)\<close>
  spins.
\<close>

definition step ::
  "'h env \<Rightarrow> osm_with \<Rightarrow> byte list \<Rightarrow> pbf \<Rightarrow> frame
     \<Rightarrow> 'h pushed list \<times> (error + pbf \<times> frame) option" where
  "step env w buf p s =
     (if status s = 0 then step0 buf p s
      else if status s = 1 then step1 env buf p s
      else if status s = 2 then step2 env buf p s
      else if status s = 3 then step3 env w buf p s
      else ([], None))"

text \<open>
  \<open>this.buffer && this.needed && this.buffer.length - this.offset < this.needed\<close>; the
  buffer is an object inside the loop, hence truthy.
\<close>

definition starved :: "byte list \<Rightarrow> frame \<Rightarrow> bool" where
  "starved buf s = (needed s \<noteq> 0 \<and> int (length buf) - offset s < needed s)"

text \<open>
  The loop \<open>while (true)\<close> of \<open>_transform\<close>.  The buffer does not change inside the loop
  and is passed beside the other fields.  The result is what was pushed, and \<open>Some (Inr s)\<close>
  when the loop leaves through \<open>return next()\<close> with the fields \<open>s\<close>, \<open>Some (Inl e)\<close> when
  it throws \<open>e\<close>, \<open>None\<close> when it never leaves.

  The two measures below are used for the termination proof only.
\<close>

definition bad :: "pbf \<Rightarrow> frame \<Rightarrow> bool" where
  "bad p s = ((status s = 0 \<and> needed s \<le> 0) \<or> (status s = 1 \<and> needed s < 0)
              \<or> (status s \<in> {2, 3} \<and> plength p - pos p \<noteq> needed s))"

definition rank :: "nat \<Rightarrow> nat" where
  "rank st = (if st = 0 then 0 else if st = 1 then 2 else 1)"

function drain ::
  "'h env \<Rightarrow> osm_with \<Rightarrow> byte list \<Rightarrow> pbf \<Rightarrow> frame \<Rightarrow> 'h pushed list \<times> (error + frame) option" where
  "drain env w buf p s =
     (if starved buf s then ([], Some (Inr s))
      else (case step env w buf p s of
              (outs, None) \<Rightarrow> (outs, None)
            | (outs, Some (Inl e)) \<Rightarrow> (outs, Some (Inl e))
            | (outs, Some (Inr (p', s'))) \<Rightarrow>
                (case drain env w buf p' s' of (outs', r) \<Rightarrow> (outs @ outs', r))))"
  by pat_completeness auto
termination
proof (relation "measures [\<lambda>(env, w, buf, p, s). if bad p s then 1 else 0,
                           \<lambda>(env, w, buf, p, s).
                              4 * nat (int (length buf) - offset s) + rank (status s)]")
  show "wf (measures [\<lambda>(env :: 'h env, w :: osm_with, buf :: byte list, p, s).
                         if bad p s then 1 else 0,
                      \<lambda>(env, w, buf, p, s).
                         4 * nat (int (length buf) - offset s) + rank (status s)])"
    by simp
next
  fix env :: "'h env" and w buf p s outs r x y p' s'
  assume a: "\<not> starved buf s" "(outs, r) = step env w buf p s" "r = Some x"
    "x = Inr y" "(p', s') = y"
  then have st: "step env w buf p s = (outs, Some (Inr (p', s')))"
    by simp
  have shape:
    "(status s = 0 \<and> 0 \<le> offset s \<and> offset s + 4 \<le> int (length buf)
        \<and> status s' = 1 \<and> 0 \<le> needed s' \<and> offset s' = offset s + needed s)
     \<or> (status s = 1 \<and> status s' \<in> {2, 3} \<and> plength p' - pos p' = needed s'
        \<and> offset s' = offset s + needed s)
     \<or> (status s \<in> {2, 3} \<and> status s' = 0 \<and> needed s' = 4 \<and> pos p < plength p
        \<and> offset s' = offset s + needed s)"
    using st
    by (auto simp: step_def step0_def step1_def step2_def step3_def readUInt32BE_def Let_def
          advance_def Blob_read_def pbf_readFields_def Blob_init_def not_implemented_def
        split: if_splits sum.splits option.splits)
  show "((env, w, buf, p', s'), env, w, buf, p, s)
          \<in> measures [\<lambda>(env, w, buf, p, s). if bad p s then 1 else 0,
                       \<lambda>(env, w, buf, p, s).
                          4 * nat (int (length buf) - offset s) + rank (status s)]"
    using shape a(1) by (auto simp: bad_def rank_def starved_def)
qed

declare drain.simps [simp del]

text \<open>\<open>buffer.subarray(start)\<close>: a negative start counts from the end.\<close>

definition subarray :: "byte list \<Rightarrow> int \<Rightarrow> byte list" where
  "subarray b start =
     (if start < 0 then drop (nat (max (int (length b) + start) 0)) b else drop (nat start) b)"

text \<open>
  \<open>_transform(chunk)\<close>: the buffer is the chunk itself the first time, and the unread
  rest followed by the chunk afterwards; a fresh \<open>Pbf\<close> starts at position 0 with length 0
  or \<open>needed\<close>.
\<close>

definition transform ::
  "'h env \<Rightarrow> osm_with \<Rightarrow> frame \<Rightarrow> byte list \<Rightarrow> 'h pushed list \<times> (error + frame) option" where
  "transform env w s chunk =
     (let s = (case buffer s of
                 None \<Rightarrow> s\<lparr> buffer := Some chunk \<rparr>
               | Some b \<Rightarrow> s\<lparr> buffer := Some (subarray b (offset s) @ chunk), offset := 0 \<rparr>);
          buf = (case buffer s of None \<Rightarrow> [] | Some b \<Rightarrow> b);
          p = \<lparr> pos = 0, plength = (if status s = 0 then 0 else needed s) \<rparr>
      in drain env w buf p s)"

text \<open>\<open>_flush\<close>: \<open>assert(this.buffer?.length == this.offset && this.status == 0)\<close>\<close>

definition flush :: "frame \<Rightarrow> error + unit" where
  "flush s =
     assert ((case buffer s of None \<Rightarrow> False | Some b \<Rightarrow> int (length b) = offset s)
             \<and> status s = 0) None"

text \<open>
  The stream around the two methods: \<open>_transform\<close> is called with one chunk after the
  other, a throw ends the stream, and \<open>_flush\<close> is called at the end of the input.
\<close>

fun feed ::
  "'h env \<Rightarrow> osm_with \<Rightarrow> frame \<Rightarrow> byte list list \<Rightarrow> 'h pushed list \<times> (error + frame) option" where
  "feed env w s [] = ([], Some (Inr s))"
| "feed env w s (c # cs) =
     (case transform env w s c of
        (outs, Some (Inr s')) \<Rightarrow> (case feed env w s' cs of (outs', r) \<Rightarrow> (outs @ outs', r))
      | (outs, Some (Inl e)) \<Rightarrow> (outs, Some (Inl e))
      | (outs, None) \<Rightarrow> (outs, None))"

definition decode ::
  "'h env \<Rightarrow> osm_with \<Rightarrow> byte list list \<Rightarrow> 'h pushed list \<times> (error + unit) option" where
  "decode env w cs =
     (case feed env w frame_init cs of
        (outs, Some (Inr s)) \<Rightarrow> (outs, Some (flush s))
      | (outs, Some (Inl e)) \<Rightarrow> (outs, Some (Inl e))
      | (outs, None) \<Rightarrow> (outs, None))"

section \<open>A small instance for running the model\<close>

text \<open>
  A toy reader for concrete runs: every byte of a window is one field, whose tag is the
  high half of the byte and whose number is the low half.  The other collaborators do
  nothing of interest.
\<close>

definition ex_field :: "byte \<Rightarrow> pbf_field" where
  "ex_field x = \<lparr> f_tag = unat x div 16, f_varint = int (unat x mod 16), f_bytes = [x],
                   f_string = (if unat x mod 16 = 0 then ''OSMHeader'' else ''OSMData'') \<rparr>"

definition ex_block :: PrimitiveBlock where
  "ex_block = \<lparr> b_stringtable = [], b_primitivegroup = [], b_granularity = 100,
                 b_lat_offset = 0, b_lon_offset = 0, b_date_granularity = 1000 \<rparr>"

definition ex_env :: "unit env" where
  "ex_env = \<lparr> readFields = (\<lambda>bs. Inr (map ex_field bs)),
               inflateSync = (\<lambda>z. Inr z),
               HeaderBlock_read = (\<lambda>b. Inr ()),
               PrimitiveBlock_read = (\<lambda>b. Inr ex_block) \<rparr>"

definition ex_with :: osm_with where
  "ex_with = \<lparr> withTags = [(''node'', TBool True), (''way'', TBool True),
                            (''relation'', TBool True)],
                withInfo = False, writeRaw = False \<rparr>"

text \<open>A block's data with a few strings, all tags allowed and info switched on.\<close>

definition ex_data :: data where
  "ex_data = \<lparr> strings = ['''', ''name'', ''Oslo'', ''alice'', ''highway'', ''primary''],
                date_granularity = 1000, granularity = 10000000, lat_offset = 59,
                lon_offset = 10, dataTags = withTags ex_with, dataInfo = True \<rparr>"

definition ex_info :: Info where
  "ex_info = \<lparr> i_version = 3, i_timestamp = 5, i_changeset = 0, i_uid = 0, i_user_sid = 3,
                i_visible = None \<rparr>"

section \<open>Notions used in the statements\<close>

text \<open>Some field of a wire info record is away from its unset value.\<close>

definition qualifies :: "data \<Rightarrow> Info \<Rightarrow> bool" where
  "qualifies dat i =
     (i_version i \<noteq> 0 \<or> i_timestamp i \<noteq> 0 \<or> i_changeset i \<noteq> 0 \<or> i_uid i \<noteq> 0
      \<or> (i_user_sid i \<noteq> 0
          \<and> (\<exists>s. js_index (strings dat) (i_user_sid i) = Some s \<and> s \<noteq> []))
      \<or> i_visible i = Some False)"

text \<open>
  The key/value pairs of a wire record after the string-table reads, the ones a policy
  lets through under their property names, and the value that the last pair with a given
  name carries.
\<close>

definition decoded_pairs ::
  "string list \<Rightarrow> int list \<Rightarrow> int list \<Rightarrow> (string option \<times> string option) list" where
  "decoded_pairs strs keys vals = zip (map (js_index strs) keys) (map (js_index strs) vals)"

definition selected ::
  "tagopt \<Rightarrow> (string option \<times> string option) list \<Rightarrow> (string \<times> string option) list" where
  "selected opt ps = map (\<lambda>(k, v). (prop_name k, v)) (filter (\<lambda>(k, v). passes opt k) ps)"

text \<open>The selected pairs that an assignment turns into a property.\<close>

definition stored ::
  "tagopt \<Rightarrow> (string option \<times> string option) list \<Rightarrow> (string \<times> string option) list" where
  "stored opt ps = filter (\<lambda>(n, v). n \<noteq> ''__proto__'') (selected opt ps)"

text \<open>None of the selected pairs goes by the name \<open>__proto__\<close>.\<close>

definition proto_free :: "tagopt \<Rightarrow> (string option \<times> string option) list \<Rightarrow> bool" where
  "proto_free opt ps = (''__proto__'' \<notin> fst ` set (selected opt ps))"

definition last_value :: "(string \<times> 'v) list \<Rightarrow> string \<Rightarrow> 'v option" where
  "last_value ps = map_of (rev ps)"

text \<open>
  The first tag segment of a key/value-index array: index pairs up to the first key
  index 0 found at an even distance, and the array after that 0.  \<open>None\<close> when no such 0
  exists.
\<close>

fun segment :: "int list \<Rightarrow> ((int \<times> int) list \<times> int list) option" where
  "segment [] = None"
| "segment [k] = (if k = 0 then Some ([], []) else None)"
| "segment (k # v # rest) =
     (if k = 0 then Some ([], v # rest)
      else (case segment rest of
              None \<Rightarrow> None
            | Some (ps, r) \<Rightarrow> Some ((k, v) # ps, r)))"

text \<open>The first \<open>n\<close> segments.\<close>

fun segments :: "int list \<Rightarrow> nat \<Rightarrow> (int \<times> int) list list option" where
  "segments kv 0 = Some []"
| "segments kv (Suc n) =
     (case segment kv of
        None \<Rightarrow> None
      | Some (ps, r) \<Rightarrow>
          (case segments r n of None \<Rightarrow> None | Some pss \<Rightarrow> Some (ps # pss)))"

text \<open>The dense decoder runs its tag loop: node tags are read and \<open>keys_vals\<close> is not empty.\<close>

definition tagging :: "data \<Rightarrow> DenseNodes \<Rightarrow> bool" where
  "tagging dat dense
     = (truthy (kind_opt (dataTags dat) ''node'') \<and> length (d_keys_vals dense) > 0)"

text \<open>
  When the dense decoder reads info, the five arrays it hands to \<open>assertArrays\<close> are as
  long as \<open>id\<close>.
\<close>

definition info_arrays_ok :: "data \<Rightarrow> DenseNodes \<Rightarrow> bool" where
  "info_arrays_ok dat dense
     = (dataInfo dat \<longrightarrow> (\<forall>di. d_denseinfo dense = Some di \<longrightarrow>
             length (di_timestamp di) = length (d_id dense)
             \<and> length (di_changeset di) = length (d_id dense)
             \<and> length (di_uid di) = length (d_id dense)
             \<and> length (di_user_sid di) = length (d_id dense)
             \<and> length (di_version di) = length (d_id dense)))"

text \<open>
  What is expected of the \<open>k\<close>-th node decoded from index \<open>i0\<close> on with the running
  values \<open>a\<close>; used to state the loop lemma.
\<close>

definition dense_node_ok ::
  "data \<Rightarrow> DenseNodes \<Rightarrow> (int \<times> int) list list \<Rightarrow> dense_acc \<Rightarrow> nat \<Rightarrow> nat \<Rightarrow> node_out \<Rightarrow> bool" where
  "dense_node_ok dat dense pss a i0 k x
     = (node_id x = a_id a + sum_list (take (Suc k) (drop i0 (d_id dense)))
        \<and> node_lat x
            = scale dat (lat_offset dat)
                (a_lat a + sum_list (take (Suc k) (drop i0 (d_lat dense))))
        \<and> node_lon x
            = scale dat (lon_offset dat)
                (a_lon a + sum_list (take (Suc k) (drop i0 (d_lon dense))))
        \<and> (if tagging dat dense
            then tags_block dat ''node'' (map fst (pss ! k)) (map snd (pss ! k))
                   = Inr (node_tags x)
            else node_tags x = None)
        \<and> ((dataInfo dat \<longrightarrow> d_denseinfo dense = None) \<longrightarrow> node_info x = None))"

text \<open>
  The wire info of the \<open>k\<close>-th node decoded from index \<open>i0\<close> on with the running values
  \<open>a\<close>: \<open>version\<close> and \<open>visible\<close> as read, the four other fields as running sums; used to
  state the loop lemma.
\<close>

definition dense_info_from :: "DenseInfo \<Rightarrow> dense_acc \<Rightarrow> nat \<Rightarrow> nat \<Rightarrow> Info" where
  "dense_info_from di a i0 k =
     \<lparr> i_version = di_version di ! (i0 + k),
       i_timestamp = a_timestamp a + sum_list (take (Suc k) (drop i0 (di_timestamp di))),
       i_changeset = a_changeset a + sum_list (take (Suc k) (drop i0 (di_changeset di))),
       i_uid = a_uid a + sum_list (take (Suc k) (drop i0 (di_uid di))),
       i_user_sid = a_user_sid a + sum_list (take (Suc k) (drop i0 (di_user_sid di))),
       i_visible = js_index (di_visible di) (int (i0 + k)) \<rparr>"

text \<open>Dense info for one node, without \<open>visible\<close>.\<close>

definition ex_dinfo :: DenseInfo where
  "ex_dinfo = \<lparr> di_version = [1], di_timestamp = [0], di_changeset = [0], di_uid = [0],
                 di_user_sid = [0], di_visible = [] \<rparr>"

text \<open>
  Dense info for three nodes: the deltas of the third bring every running sum back to 0,
  and \<open>visible\<close> has two entries only.
\<close>

definition ex_dinfo3 :: DenseInfo where
  "ex_dinfo3 = \<lparr> di_version = [1, 0, 0], di_timestamp = [5, 3, -8], di_changeset = [2, 0, -2],
                  di_uid = [4, 1, -5], di_user_sid = [3, 0, -3], di_visible = [True, False] \<rparr>"

text \<open>The same block data with one policy of each form.\<close>

definition ex_filtered :: data where
  "ex_filtered = ex_data\<lparr> dataTags := [(''node'', AllowSet [JString ''name'']),
                                       (''way'', AllowAll), (''relation'', Disabled)] \<rparr>"

section \<open>Notions used for the framing proofs\<close>

text \<open>
  The cursors of the \<open>Pbf\<close> object follow the fields of the transform: its \<open>length\<close> is at
  \<open>offset\<close> when a header length is awaited, and its window is the \<open>needed\<close> bytes from
  \<open>offset\<close> otherwise.
\<close>

definition aligned :: "pbf \<Rightarrow> frame \<Rightarrow> bool" where
  "aligned p s =
     (if status s = 0 then plength p = offset s
      else pos p = offset s \<and> plength p = offset s + needed s)"

text \<open>The invariant of the loop for a buffer \<open>buf\<close>.\<close>

definition loop_inv :: "byte list \<Rightarrow> pbf \<Rightarrow> frame \<Rightarrow> bool" where
  "loop_inv buf p s =
     (0 \<le> offset s \<and> offset s \<le> int (length buf) \<and> aligned p s \<and> status s \<le> 3
      \<and> (status s = 0 \<longrightarrow> needed s = 4) \<and> (status s = 1 \<longrightarrow> 0 \<le> needed s))"

text \<open>What is left of the state when the consumed bytes are forgotten.\<close>

type_synonym view = "byte list \<times> nat \<times> int"

definition view :: "byte list \<Rightarrow> frame \<Rightarrow> view" where
  "view buf s = (drop (nat (offset s)) buf, status s, needed s)"

definition abs_result ::
  "byte list \<Rightarrow> 'h pushed list \<times> (error + frame) option \<Rightarrow> 'h pushed list \<times> (error + view) option" where
  "abs_result buf r = (fst r, map_option (map_sum id (view buf)) (snd r))"

definition abs_step ::
  "byte list \<Rightarrow> 'h pushed list \<times> (error + pbf \<times> frame) option
     \<Rightarrow> 'h pushed list \<times> (error + view) option" where
  "abs_step buf r = (fst r, map_option (map_sum id (\<lambda>(p, s). view buf s)) (snd r))"

text \<open>The loop started on the bytes of a view followed by new bytes.\<close>

definition canon :: "nat \<Rightarrow> int \<Rightarrow> pbf" where
  "canon st nd = \<lparr> pos = 0, plength = (if st = 0 then 0 else nd) \<rparr>"

definition frame_of :: "nat \<Rightarrow> int \<Rightarrow> frame" where
  "frame_of st nd = \<lparr> buffer = None, offset = 0, status = st, needed = nd \<rparr>"

definition abs_run ::
  "'h env \<Rightarrow> osm_with \<Rightarrow> view \<Rightarrow> byte list \<Rightarrow> 'h pushed list \<times> (error + view) option" where
  "abs_run env w v ys =
     (case v of (rest, st, nd) \<Rightarrow>
        abs_result (rest @ ys) (drain env w (rest @ ys) (canon st nd) (frame_of st nd)))"

text \<open>The same for the fields between two calls of \<open>_transform\<close>.\<close>

definition frame_ok :: "frame \<Rightarrow> bool" where
  "frame_ok s =
     ((case buffer s of
         None \<Rightarrow> offset s = 0
       | Some b \<Rightarrow> 0 \<le> offset s \<and> offset s \<le> int (length b))
      \<and> status s \<le> 3 \<and> (status s = 0 \<longrightarrow> needed s = 4) \<and> (status s = 1 \<longrightarrow> 0 \<le> needed s))"

definition rest_of :: "frame \<Rightarrow> byte list" where
  "rest_of s = (case buffer s of None \<Rightarrow> [] | Some b \<Rightarrow> drop (nat (offset s)) b)"

definition fview :: "frame \<Rightarrow> view" where
  "fview s = (rest_of s, status s, needed s)"

definition abs_frames ::
  "'h pushed list \<times> (error + frame) option \<Rightarrow> 'h pushed list \<times> (error + view) option" where
  "abs_frames r = (fst r, map_option (map_sum id fview) (snd r))"

text \<open>The end of the input, read off a view.\<close>

definition finish ::
  "'h pushed list \<times> (error + view) option \<Rightarrow> 'h pushed list \<times> (error + unit) option" where
  "finish r =
     (fst r,
      map_option
        (\<lambda>x. case x of
                Inl e \<Rightarrow> Inl e
              | Inr (rest, st, nd) \<Rightarrow>
                  if rest = [] \<and> st = 0 then Inr () else Inl (Error ''input format error''))
        (snd r))"

text \<open>What follows a result when more bytes arrive.\<close>

definition continue ::
  "'h env \<Rightarrow> osm_with \<Rightarrow> byte list \<Rightarrow> 'h pushed list \<times> (error + view) option
     \<Rightarrow> 'h pushed list \<times> (error + view) option" where
  "continue env w ys r =
     (case r of
        (o1, Some (Inr v)) \<Rightarrow> (case abs_run env w v ys of (o2, r2) \<Rightarrow> (o1 @ o2, r2))
      | (o1, Some (Inl e)) \<Rightarrow> (o1, Some (Inl e))
      | (o1, None) \<Rightarrow> (o1, None))"

section \<open>Verified properties\<close>

subsection \<open>Resolution of the tag option\<close>

text \<open>
  C6.  The claim asks that every shape of \<open>withTags\<close> other than a boolean or an object
  of per-kind booleans and lists raises an error when the decoder is built.  A number or
  a string is such a shape, and \<open>with_tags\<close> returns the empty object for it: the
  constructor succeeds and no kind has a policy.
\<close>

theorem with_tags_accepts_non_object:
  "with_tags (JNumber 5) = Inr []
   \<and> with_tags (JString ''all'') = Inr []
   \<and> new_with \<lparr> o_withTags = JNumber 5, o_withInfo = None, o_writeRaw = None \<rparr>
       = Inr \<lparr> withTags = [], withInfo = False, writeRaw = False \<rparr>
   \<and> with_tags (JObject [(''node'', JNumber 5)]) = Inl (Error ''wrong withTags option.'')"
  by (simp add: with_tags_def new_with_def)

text \<open>The shapes the claim lists are resolved as it says.\<close>

lemma with_tags_bool:
  "with_tags (JBool b) = Inr [(''node'', TBool b), (''way'', TBool b), (''relation'', TBool b)]"
  by (simp add: with_tags_def)

lemma with_tags_object_example:
  "with_tags (JObject [(''node'', JArray [JString ''name'']), (''way'', JArray []),
                       (''relation'', JBool False)])
     = Inr [(''node'', AllowSet [JString ''name'']), (''way'', Disabled),
            (''relation'', Disabled)]"
  by (simp add: with_tags_def)

subsection \<open>End of input\<close>


text \<open>
  C10.  When the input ends before any chunk has arrived, the buffer is still
  \<open>undefined\<close> and \<open>_flush\<close> throws the format error, although the status is 0 and no byte
  is pending.
\<close>

theorem flush_before_first_chunk:
  "flush frame_init = Inl (Error ''input format error'')
   \<and> decode env w [] = ([], Some (Inl (Error ''input format error'')))"
  by (simp add: decode_def flush_def frame_init_def assert_def)



subsection \<open>Blob payloads\<close>

text \<open>
  C5.  The claim lets the bytes of \<open>raw\<close> through as the payload of every blob.  A data
  blob that carries \<open>raw\<close> only is refused with the message for a missing codec, while the
  same blob after an \<open>OSMHeader\<close> header is taken.
\<close>

theorem raw_data_blob_rejected:
  "decode ex_env ex_with [[0, 0, 0, 2, 0x11, 0x31, 0x10]]
     = ([], Some (Inl (Error ''inflating raw not implemented'')))
   \<and> decode ex_env ex_with [[0, 0, 0, 2, 0x10, 0x31, 0x10]] = ([HeaderOut ()], Some (Inr ()))"
  by code_simp

text \<open>
  The rest of the claim holds: a blob with neither \<open>zlib_data\<close> nor \<open>raw\<close> is refused in
  both branches with a message that names the field read last, and nothing is pushed.
\<close>

lemma unsupported_codec:
  assumes "status s = 2 \<or> status s = 3" "Blob_read env buf p = Inr blob"
    "zlib_data blob = None" "raw blob = None"
  shows "step env w buf p s = ([], Some (Inl (Error (not_implemented blob))))"
  using assms by (auto simp: step_def step2_def step3_def)

lemma unsupported_codec_example:
  "decode ex_env ex_with [[0, 0, 0, 2, 0x11, 0x31, 0x40]]
     = ([], Some (Inl (Error ''inflating lzma_data not implemented'')))
   \<and> decode ex_env ex_with [[0, 0, 0, 2, 0x10, 0x31, 0x70]]
     = ([], Some (Inl (Error ''inflating zstd_data not implemented'')))"
  by code_simp

subsection \<open>Info records\<close>

lemma fill_info_sel:
  "version (fill_info dat i) = (if i_version i \<noteq> 0 then Some (i_version i) else None)"
  "timestamp (fill_info dat i)
     = (if i_timestamp i \<noteq> 0 then Some (i_timestamp i * date_granularity dat) else None)"
  "changeset (fill_info dat i) = (if i_changeset i \<noteq> 0 then Some (i_changeset i) else None)"
  "uid (fill_info dat i) = (if i_uid i \<noteq> 0 then Some (i_uid i) else None)"
  "user (fill_info dat i)
     = (if i_user_sid i \<noteq> 0
        then (case js_index (strings dat) (i_user_sid i) of
                None \<Rightarrow> None
              | Some s \<Rightarrow> if s \<noteq> [] then Some s else None)
        else None)"
  "visible (fill_info dat i) = (if i_visible i = Some False then Some False else None)"
  by (simp_all add: fill_info_def empty_info_def Let_def split: option.splits)

lemma info_out_eqI:
  fixes a b :: info_out
  assumes "version a = version b" "timestamp a = timestamp b" "changeset a = changeset b"
    "uid a = uid b" "user a = user b" "visible a = visible b"
  shows "a = b"
  using assms by (cases a, cases b) simp

lemma fill_info_empty_iff: "isEmpty_info (fill_info dat i) \<longleftrightarrow> \<not> qualifies dat i"
proof
  assume "isEmpty_info (fill_info dat i)"
  then have e: "fill_info dat i = empty_info" by (simp add: isEmpty_info_def)
  have "version (fill_info dat i) = None" "timestamp (fill_info dat i) = None"
    "changeset (fill_info dat i) = None" "uid (fill_info dat i) = None"
    "user (fill_info dat i) = None" "visible (fill_info dat i) = None"
    unfolding e by (simp_all add: empty_info_def)
  then show "\<not> qualifies dat i"
    unfolding fill_info_sel qualifies_def by (auto split: if_splits option.splits)
next
  assume q: "\<not> qualifies dat i"
  have "fill_info dat i = empty_info"
    by (rule info_out_eqI; unfold fill_info_sel; use q in \<open>auto simp: qualifies_def empty_info_def split: option.splits\<close>)
  then show "isEmpty_info (fill_info dat i)" by (simp add: isEmpty_info_def)
qed

lemma info_block_Some:
  "info_block dat (Some i)
     = (if dataInfo dat \<and> qualifies dat i then Some (fill_info dat i) else None)"
  by (simp add: info_block_def Let_def fill_info_empty_iff)

lemma parse_node_info: "parse_node dat n = Inr x \<Longrightarrow> node_info x = info_block dat (n_info n)"
  by (auto simp: parse_node_def split: sum.splits)

lemma parse_way_info: "parse_way dat y = Inr x \<Longrightarrow> way_info x = info_block dat (w_info y)"
  by (auto simp: parse_way_def Let_def split: sum.splits)

lemma parse_rel_info: "parse_rel dat r = Inr x \<Longrightarrow> rel_info x = info_block dat (r_info r)"
  by (auto simp: parse_rel_def Let_def split: sum.splits)

subsection \<open>Parallel arrays and relation members\<close>

lemma assertArrays2:
  "assertArrays [a, b] = (if a = b then Inr () else Inl (Error ''input format error''))"
  by (simp add: assertArrays_def assert_def)

lemma assertArrays3:
  "assertArrays [a, b, c]
     = (if a = b \<and> a = c then Inr () else Inl (Error ''input format error''))"
  by (simp add: assertArrays_def assert_def)

lemma assertArrays6:
  "assertArrays [a, b, c, d, e, f]
     = (if a = b \<and> a = c \<and> a = d \<and> a = e \<and> a = f then Inr ()
        else Inl (Error ''input format error''))"
  by (simp add: assertArrays_def assert_def)

lemma members_loop_length:
  "length ms = length ts \<Longrightarrow> length ts = length rs
   \<Longrightarrow> length (members_loop strs ref ms ts rs) = length ms"
  by (induction ms ts rs arbitrary: ref rule: list_induct3) simp_all

lemma members_loop_nth:
  "length ms = length ts \<Longrightarrow> length ts = length rs \<Longrightarrow> i < length ms
   \<Longrightarrow> members_loop strs ref ms ts rs ! i
       = \<lparr> m_type = js_index memberTypes (ts ! i),
           m_ref = ref + sum_list (take (Suc i) ms),
           m_role = js_index strs (rs ! i) \<rparr>"
proof (induction ms ts rs arbitrary: ref i rule: list_induct3)
  case Nil
  then show ?case by simp
next
  case (Cons m ms t ts r rs)
  show ?case
  proof (cases i)
    case 0
    then show ?thesis by simp
  next
    case (Suc k)
    with Cons.prems have "k < length ms" by simp
    from Cons.IH [OF this, of "ref + m"] Suc show ?thesis by (simp add: add.assoc)
  qed
qed

lemma memberTypes_index:
  "js_index memberTypes t
     = (if t = 0 then Some ''node'' else if t = 1 then Some ''way''
        else if t = 2 then Some ''relation'' else None)"
proof -
  have "0 \<le> t \<and> t < 3 \<longleftrightarrow> t = 0 \<or> t = 1 \<or> t = 2" by auto
  then show ?thesis
    by (auto simp: js_index_def memberTypes_def)
qed

lemma tags_block_total:
  "\<not> truthy (kind_opt (dataTags dat) kind) \<or> length keys = length vals
   \<Longrightarrow> \<exists>t. tags_block dat kind keys vals = Inr t"
  by (auto simp: tags_block_def assertArrays2 Let_def split: option.splits)

text \<open>
  C9.  A relation whose three member arrays are parallel (and whose tag arrays are, when
  relation tags are read) is decoded whatever numbers its \<open>types\<close> array holds: a number
  outside 0, 1, 2 leaves the \<open>type\<close> of that member \<open>undefined\<close>, and every member has its
  running \<open>ref\<close> and its role.
\<close>

theorem member_type_unchecked:
  assumes "length (r_types r) = length (r_memids r)"
    and "length (r_roles_sid r) = length (r_memids r)"
    and "\<not> truthy (kind_opt (dataTags dat) ''relation'') \<or> length (r_keys r) = length (r_vals r)"
  shows "\<exists>x. parse_rel dat r = Inr x
           \<and> length (rel_members x) = length (r_memids r)
           \<and> (\<forall>i < length (r_memids r).
                 m_type (rel_members x ! i)
                   = (if r_types r ! i = 0 then Some ''node''
                      else if r_types r ! i = 1 then Some ''way''
                      else if r_types r ! i = 2 then Some ''relation''
                      else None)
                 \<and> m_ref (rel_members x ! i) = sum_list (take (Suc i) (r_memids r))
                 \<and> m_role (rel_members x ! i) = js_index (strings dat) (r_roles_sid r ! i))"
proof -
  obtain t where t: "tags_block dat ''relation'' (r_keys r) (r_vals r) = Inr t"
    using tags_block_total [OF assms(3)] by blast
  let ?ms = "members_loop (strings dat) 0 (r_memids r) (r_types r) (r_roles_sid r)"
  let ?x = "\<lparr> rel_id = r_id r, rel_members = ?ms, rel_tags = t,
               rel_info = info_block dat (r_info r) \<rparr>"
  have p: "parse_rel dat r = Inr ?x"
    using assms(1,2) t by (simp add: parse_rel_def assertArrays3 Let_def)
  have l: "length (rel_members ?x) = length (r_memids r)"
    using assms(1,2) by (simp add: members_loop_length)
  have n: "\<forall>i < length (r_memids r).
                 m_type (rel_members ?x ! i)
                   = (if r_types r ! i = 0 then Some ''node''
                      else if r_types r ! i = 1 then Some ''way''
                      else if r_types r ! i = 2 then Some ''relation''
                      else None)
                 \<and> m_ref (rel_members ?x ! i) = sum_list (take (Suc i) (r_memids r))
                 \<and> m_role (rel_members ?x ! i) = js_index (strings dat) (r_roles_sid r ! i)"
    using assms(1,2) by (simp add: members_loop_nth memberTypes_index)
  from p l n show ?thesis by blast
qed

theorem member_type_unchecked_witness:
  "parse_rel ex_data \<lparr> r_id = 9, r_memids = [5, 2, -3], r_types = [1, 7, 0],
                        r_roles_sid = [0, 1, 1], r_keys = [], r_vals = [], r_info = None \<rparr>
     = Inr \<lparr> rel_id = 9,
             rel_members = [\<lparr> m_type = Some ''way'', m_ref = 5, m_role = Some '''' \<rparr>,
                            \<lparr> m_type = None, m_ref = 7, m_role = Some ''name'' \<rparr>,
                            \<lparr> m_type = Some ''node'', m_ref = 4, m_role = Some ''name'' \<rparr>],
             rel_tags = None, rel_info = None \<rparr>"
proof -
  let ?r = "\<lparr> r_id = 9, r_memids = [5, 2, -3], r_types = [1, 7, 0],
                        r_roles_sid = [0, 1, 1], r_keys = [], r_vals = [], r_info = None \<rparr>"
  have "\<exists>x. parse_rel ex_data ?r = Inr x \<and> length (rel_members x) = length (r_memids ?r)
          \<and> (\<forall>i < length (r_memids ?r).
                 m_type (rel_members x ! i)
                   = (if r_types ?r ! i = 0 then Some ''node''
                      else if r_types ?r ! i = 1 then Some ''way''
                      else if r_types ?r ! i = 2 then Some ''relation''
                      else None)
                 \<and> m_ref (rel_members x ! i) = sum_list (take (Suc i) (r_memids ?r))
                 \<and> m_role (rel_members x ! i) = js_index (strings ex_data) (r_roles_sid ?r ! i))"
    by (rule member_type_unchecked) simp_all
  then obtain x where x: "parse_rel ex_data ?r = Inr x" by blast
  then show ?thesis
    by (auto simp: parse_rel_def assertArrays3 Let_def tags_block_def kind_opt_def ex_data_def
          ex_with_def truthy_def assertArrays2 isEmpty_tags_def info_block_def js_index_def
          memberTypes_def)
qed

subsection \<open>The tag block\<close>

lemma last_value_Cons: "last_value (p # ps) = [fst p \<mapsto> snd p] ++ last_value ps"
  by (cases p) (simp add: last_value_def)

lemma last_value_Nil_iff: "last_value ps = Map.empty \<longleftrightarrow> ps = []"
  by (simp add: last_value_def)

lemma tag_loop_map_of:
  "length keys = length vals
   \<Longrightarrow> map_of (tag_loop strs opt t keys vals)
       = map_of t ++ last_value (stored opt (decoded_pairs strs keys vals))"
proof (induction keys vals arbitrary: t rule: list_induct2)
  case Nil
  then show ?case by (simp add: decoded_pairs_def selected_def stored_def last_value_def)
next
  case (Cons k ks v vs)
  have sel: "stored opt (decoded_pairs strs (k # ks) (v # vs))
      = (if passes opt (js_index strs k) \<and> prop_name (js_index strs k) \<noteq> ''__proto__''
         then [(prop_name (js_index strs k), js_index strs v)]
         else []) @ stored opt (decoded_pairs strs ks vs)"
    by (simp add: decoded_pairs_def selected_def stored_def)
  show ?case
    unfolding tag_loop.simps Cons.IH sel
    by (simp add: put_tag_def set_prop_def Let_def last_value_Cons update_conv'
          map_add_upd_left)
qed

lemma tag_loop_Nil_iff:
  assumes "length keys = length vals"
  shows "tag_loop strs opt [] keys vals = []
           \<longleftrightarrow> stored opt (decoded_pairs strs keys vals) = []"
proof -
  have "tag_loop strs opt [] keys vals = []
          \<longleftrightarrow> map_of (tag_loop strs opt [] keys vals) = Map.empty"
    by simp
  also have "\<dots> \<longleftrightarrow> stored opt (decoded_pairs strs keys vals) = []"
    unfolding tag_loop_map_of [OF assms] by (simp add: last_value_Nil_iff)
  finally show ?thesis .
qed

lemma stored_selected: "proto_free opt ps \<Longrightarrow> stored opt ps = selected opt ps"
  by (auto simp: stored_def proto_free_def filter_id_conv image_iff)

lemma tags_block_off:
  "\<not> truthy (kind_opt (dataTags dat) kind) \<Longrightarrow> tags_block dat kind keys vals = Inr None"
  by (auto simp: tags_block_def split: option.splits)

lemma tags_block_mismatch:
  "truthy (kind_opt (dataTags dat) kind) \<Longrightarrow> length keys \<noteq> length vals
   \<Longrightarrow> tags_block dat kind keys vals = Inl (Error ''input format error'')"
  by (auto simp: tags_block_def assertArrays2 truthy_def split: option.splits)

lemma tags_block_on:
  assumes "kind_opt (dataTags dat) kind = Some opt" "truthy (Some opt)"
    "length keys = length vals"
  shows "tags_block dat kind keys vals
           = Inr (if tag_loop (strings dat) opt [] keys vals = [] then None
                  else Some (tag_loop (strings dat) opt [] keys vals))"
  using assms by (simp add: tags_block_def assertArrays2 Let_def isEmpty_tags_def)

lemma selected_all:
  "selected AllowAll ps = map (\<lambda>(k, v). (prop_name k, v)) ps"
  by (simp add: selected_def passes_def case_prod_unfold)

lemma selected_set:
  "selected (AllowSet S) ps
     = map (\<lambda>(k, v). (prop_name k, v)) (filter (\<lambda>(k, v). set_has S k) ps)"
  by (simp add: selected_def passes_def)

lemma filter_pairs_Nil_iff:
  "length keys = length vals
   \<Longrightarrow> filter (\<lambda>(k, v). set_has S k) (decoded_pairs strs keys vals) = []
       \<longleftrightarrow> (\<forall>k \<in> set keys. \<not> set_has S (js_index strs k))"
  by (induction keys vals rule: list_induct2) (auto simp: decoded_pairs_def)

lemma tags_all:
  assumes "kind_opt (dataTags dat) kind = Some AllowAll" "length keys = length vals"
    and pf: "proto_free AllowAll (decoded_pairs (strings dat) keys vals)"
  shows "\<exists>tg. tags_block dat kind keys vals = Inr tg
           \<and> (tg \<noteq> None \<longleftrightarrow> keys \<noteq> [])
           \<and> (\<forall>t. tg = Some t
                 \<longrightarrow> map_of t = last_value (map (\<lambda>(k, v). (prop_name k, v))
                                              (decoded_pairs (strings dat) keys vals)))"
proof -
  have e: "tag_loop (strings dat) AllowAll [] keys vals = [] \<longleftrightarrow> keys = []"
    unfolding tag_loop_Nil_iff [OF assms(2)] stored_selected [OF pf]
    using assms(2) by (auto simp: selected_all decoded_pairs_def)
  show ?thesis
    using tags_block_on [OF assms(1) _ assms(2)] e
      tag_loop_map_of [OF assms(2), of "strings dat" AllowAll "[]"]
    by (auto simp: truthy_def stored_selected [OF pf] selected_all)
qed

lemma tags_set:
  assumes "kind_opt (dataTags dat) kind = Some (AllowSet S)" "length keys = length vals"
    and pf: "proto_free (AllowSet S) (decoded_pairs (strings dat) keys vals)"
  shows "\<exists>tg. tags_block dat kind keys vals = Inr tg
           \<and> (tg \<noteq> None \<longleftrightarrow> (\<exists>k \<in> set keys. set_has S (js_index (strings dat) k)))
           \<and> (\<forall>t. tg = Some t
                 \<longrightarrow> map_of t = last_value (map (\<lambda>(k, v). (prop_name k, v))
                                   (filter (\<lambda>(k, v). set_has S k)
                                      (decoded_pairs (strings dat) keys vals))))"
proof -
  have e: "tag_loop (strings dat) (AllowSet S) [] keys vals = []
             \<longleftrightarrow> \<not> (\<exists>k \<in> set keys. set_has S (js_index (strings dat) k))"
    unfolding tag_loop_Nil_iff [OF assms(2)] stored_selected [OF pf]
    using assms(2) by (simp add: selected_set filter_pairs_Nil_iff)
  show ?thesis
    using tags_block_on [OF assms(1) _ assms(2)] e
      tag_loop_map_of [OF assms(2), of "strings dat" "AllowSet S" "[]"]
    by (auto simp: truthy_def stored_selected [OF pf] selected_set)
qed

lemma tags_empty_set:
  assumes "kind_opt (dataTags dat) kind = Some (AllowSet [])"
  shows "tags_block dat kind keys vals \<noteq> Inr (Some t)"
proof (cases "length keys = length vals")
  case True
  have "selected (AllowSet []) (decoded_pairs (strings dat) keys vals) = []"
    by (auto simp: selected_set set_has_def filter_empty_conv split: option.splits)
  then have "proto_free (AllowSet []) (decoded_pairs (strings dat) keys vals)"
    by (simp add: proto_free_def)
  from tags_set [OF assms True this] show ?thesis
    by (auto simp: set_has_def split: option.splits)
next
  case False
  with assms show ?thesis by (simp add: tags_block_mismatch truthy_def)
qed

lemma last_value_distinct:
  "distinct (map fst ps) \<Longrightarrow> (n, v) \<in> set ps \<Longrightarrow> last_value ps n = Some v"
  by (simp add: last_value_def rev_map [symmetric])

lemma parse_node_tags:
  "parse_node dat n = Inr x \<Longrightarrow> tags_block dat ''node'' (n_keys n) (n_vals n) = Inr (node_tags x)"
  by (auto simp: parse_node_def split: sum.splits)

lemma parse_way_tags:
  "parse_way dat y = Inr x \<Longrightarrow> tags_block dat ''way'' (w_keys y) (w_vals y) = Inr (way_tags x)"
  by (auto simp: parse_way_def Let_def split: sum.splits)

lemma parse_rel_tags:
  "parse_rel dat r = Inr x
   \<Longrightarrow> tags_block dat ''relation'' (r_keys r) (r_vals r) = Inr (rel_tags x)"
  by (auto simp: parse_rel_def Let_def split: sum.splits)

subsection \<open>The dense tag loop\<close>

lemma drop_Cons_nth:
  assumes "drop n xs = y # ys"
  shows "n < length xs" "xs ! n = y" "drop (Suc n) xs = ys"
proof -
  show l: "n < length xs" using assms by (cases "n < length xs") simp_all
  from Cons_nth_drop_Suc [OF l] assms show "xs ! n = y" "drop (Suc n) xs = ys" by simp_all
qed

lemma js_index_drop:
  assumes "0 \<le> j" "drop (nat j) xs = y # ys"
  shows "js_index xs j = Some y"
  using drop_Cons_nth(1,2) [OF assms(2)] assms(1) by (simp add: js_index_def)

lemma js_index_drop_Nil:
  assumes "0 \<le> j" "drop (nat j) xs = []"
  shows "js_index xs j = None"
  using assms by (simp add: js_index_def)

lemma dense_tags_Some:
  assumes "segment xs = Some (ps, r)" "drop (nat j) kv = xs" "0 \<le> j"
  shows "dense_tags strs opt kv j t
           = Some (tag_loop strs opt t (map fst ps) (map snd ps),
                   int (length kv) - int (length r) - 1)"
  using assms
proof (induction xs arbitrary: ps j t rule: segment.induct)
  case 1
  then show ?case by simp
next
  case (2 k)
  from 2 have k: "k = 0" "ps = []" "r = []" by (simp_all split: if_splits)
  from 2(2,3) have i: "js_index kv j = Some k" by (rule js_index_drop [rotated])
  from drop_Cons_nth(1,3) [OF 2(2)] have "Suc (nat j) = length kv"
    by (simp add: Suc_leI le_antisym)
  with 2(3) have "j = int (length kv) - 1" by linarith
  with k i show ?case by (subst dense_tags.simps) simp
next
  case (3 k v rest)
  from 3(3,4) have i: "js_index kv j = Some k" by (rule js_index_drop [rotated])
  from drop_Cons_nth [OF 3(3)] have d1: "drop (Suc (nat j)) kv = v # rest" by simp
  have n1: "nat (j + 1) = Suc (nat j)" "nat (j + 2) = Suc (Suc (nat j))" using 3(4) by simp_all
  from d1 have i1: "js_index kv (j + 1) = Some v"
    using js_index_drop [of "j + 1" kv v rest] 3(4) n1 by simp
  from drop_Cons_nth(3) [OF d1] have d2: "drop (nat (j + 2)) kv = rest" using n1 by simp
  show ?case
  proof (cases "k = 0")
    case True
    with 3(2) have "ps = []" "r = v # rest" by simp_all
    moreover from drop_Cons_nth(1) [OF 3(3)] 3(3) have "length kv = nat j + length (k # v # rest)"
      by (metis length_drop le_add_diff_inverse less_imp_le_nat)
    ultimately show ?thesis using True i 3(4) by (subst dense_tags.simps) simp
  next
    case False
    with 3(2) obtain ps' where s: "segment rest = Some (ps', r)" "ps = (k, v) # ps'"
      by (auto split: option.splits)
    from 3(1) [OF False s(1) d2] 3(4)
    have "dense_tags strs opt kv (j + 2) (put_tag strs opt t k v)
            = Some (tag_loop strs opt (put_tag strs opt t k v) (map fst ps') (map snd ps'),
                    int (length kv) - int (length r) - 1)"
      by simp
    with False i i1 s(2) show ?thesis
      by (subst dense_tags.simps) (simp add: kv_string_def put_tag_def Let_def)
  qed
qed

lemma dense_tags_Some_segment:
  assumes "dense_tags strs opt kv j t = Some y"
  shows "0 \<le> j \<longrightarrow> segment (drop (nat j) kv) \<noteq> None"
proof (rule dense_tags.raw_induct
    [where P = "\<lambda>strs opt kv j t y. 0 \<le> j \<longrightarrow> segment (drop (nat j) kv) \<noteq> None", OF _ assms])
  fix f :: "string list \<Rightarrow> tagopt \<Rightarrow> int list \<Rightarrow> int \<Rightarrow> tags \<Rightarrow> (tags \<times> int) option"
    and strs opt kv j t y
  assume IH: "\<And>strs opt kv j t y. f strs opt kv j t = Some y
                \<Longrightarrow> 0 \<le> j \<longrightarrow> segment (drop (nat j) kv) \<noteq> None"
    and body: "(if js_index kv j = Some 0 then Some (t, j)
                else let key = kv_string strs kv j; val = kv_string strs kv (j + 1)
                     in f strs opt kv (j + 2)
                          (if passes opt key then set_prop (prop_name key) val t else t))
               = Some y"
  show "0 \<le> j \<longrightarrow> segment (drop (nat j) kv) \<noteq> None"
  proof
    assume j: "0 \<le> j"
    have d: "drop (nat (j + 2)) kv = drop 2 (drop (nat j) kv)"
      using j by (simp add: nat_add_distrib add.commute)
    have next_ok: "segment (drop (nat (j + 2)) kv) \<noteq> None" if "js_index kv j \<noteq> Some 0"
    proof -
      from that body obtain t' where "f strs opt kv (j + 2) t' = Some y"
        by (auto simp: Let_def split: if_splits)
      from IH [OF this] j show ?thesis by simp
    qed
    show "segment (drop (nat j) kv) \<noteq> None"
    proof (cases "drop (nat j) kv" rule: segment.cases)
      case 1
      with j have "js_index kv j = None" by (simp add: js_index_drop_Nil)
      with next_ok 1 d show ?thesis by simp
    next
      case (2 k)
      show ?thesis
      proof (cases "k = 0")
        case True
        with 2 show ?thesis by simp
      next
        case False
        with js_index_drop [OF j 2] have "js_index kv j \<noteq> Some 0" by simp
        with next_ok 2 d show ?thesis by simp
      qed
    next
      case (3 k v rest)
      show ?thesis
      proof (cases "k = 0")
        case True
        with 3 show ?thesis by simp
      next
        case False
        with js_index_drop [OF j 3] have "js_index kv j \<noteq> Some 0" by simp
        with next_ok 3 d False show ?thesis by (auto split: option.splits)
      qed
    qed
  qed
qed

lemma dense_tags_None:
  "segment (drop (nat j) kv) = None \<Longrightarrow> 0 \<le> j \<Longrightarrow> dense_tags strs opt kv j t = None"
  using dense_tags_Some_segment [of strs opt kv j t] by (cases "dense_tags strs opt kv j t") auto

lemma segment_drop:
  "segment xs = Some (ps, r)
   \<Longrightarrow> r = drop (Suc (2 * length ps)) xs \<and> Suc (2 * length ps) \<le> length xs"
proof (induction xs arbitrary: ps rule: segment.induct)
  case 1
  then show ?case by simp
next
  case (2 k)
  then show ?case by (simp split: if_splits)
next
  case (3 k v rest)
  show ?case
  proof (cases "k = 0")
    case True
    with 3(2) show ?thesis by simp
  next
    case False
    with 3(2) obtain ps' where s: "segment rest = Some (ps', r)" "ps = (k, v) # ps'"
      by (auto split: option.splits)
    from 3(1) [OF False s(1)] s(2) show ?thesis by simp
  qed
qed

lemma dense_node_tags_off:
  "\<not> tagging dat dense \<Longrightarrow> dense_node_tags dat dense j = Some (None, j)"
  by (auto simp: dense_node_tags_def tagging_def split: option.splits)

lemma dense_node_tags_hang:
  assumes "tagging dat dense" "0 \<le> j" "segment (drop (nat j) (d_keys_vals dense)) = None"
  shows "dense_node_tags dat dense j = None"
proof -
  from assms(1) obtain opt where o: "kind_opt (dataTags dat) ''node'' = Some opt"
    by (auto simp: tagging_def truthy_def split: option.splits)
  with assms(1) dense_tags_None [OF assms(3,2)] show ?thesis
    by (simp add: dense_node_tags_def tagging_def)
qed

lemma dense_node_tags_segment:
  assumes "tagging dat dense" "0 \<le> j"
    "segment (drop (nat j) (d_keys_vals dense)) = Some (ps, r)"
  shows "\<exists>tg. dense_node_tags dat dense j = Some (tg, j + 2 * int (length ps) + 1)
           \<and> tags_block dat ''node'' (map fst ps) (map snd ps) = Inr tg
           \<and> drop (nat (j + 2 * int (length ps) + 1)) (d_keys_vals dense) = r"
proof -
  let ?kv = "d_keys_vals dense"
  from assms(1) obtain opt where o: "kind_opt (dataTags dat) ''node'' = Some opt"
    "truthy (Some opt)"
    by (auto simp: tagging_def truthy_def split: option.splits)
  from segment_drop [OF assms(3)]
  have r: "r = drop (Suc (2 * length ps) + nat j) ?kv" "Suc (2 * length ps) + nat j \<le> length ?kv"
    by (simp_all, linarith)
  then have lr: "int (length ?kv) - int (length r) - 1 = j + 2 * int (length ps)"
    using assms(2) by simp
  have n: "nat (j + 2 * int (length ps) + 1) = Suc (2 * length ps) + nat j"
    using assms(2) by (simp add: nat_add_distrib nat_mult_distrib)
  let ?t = "tag_loop (strings dat) opt [] (map fst ps) (map snd ps)"
  have "dense_tags (strings dat) opt ?kv j [] = Some (?t, j + 2 * int (length ps))"
    using dense_tags_Some [OF assms(3) refl assms(2)] lr by simp
  then have "dense_node_tags dat dense j
        = Some (if ?t = [] then None else Some ?t, j + 2 * int (length ps) + 1)"
    using o assms(1) by (simp add: dense_node_tags_def tagging_def isEmpty_tags_def)
  moreover have "tags_block dat ''node'' (map fst ps) (map snd ps)
        = Inr (if ?t = [] then None else Some ?t)"
    using tags_block_on [OF o] by simp
  ultimately show ?thesis using r(1) n by simp
qed

lemma dense_node_info_total:
  assumes "dataInfo dat \<longrightarrow> (\<forall>di. d_denseinfo dense = Some di \<longrightarrow>
             length (di_timestamp di) = length (d_id dense)
             \<and> length (di_changeset di) = length (d_id dense)
             \<and> length (di_uid di) = length (d_id dense)
             \<and> length (di_user_sid di) = length (d_id dense)
             \<and> length (di_version di) = length (d_id dense))"
  shows "\<exists>nfo a'. dense_node_info dat dense i a = Inr (nfo, a')
           \<and> a_id a' = a_id a \<and> a_lat a' = a_lat a \<and> a_lon a' = a_lon a \<and> a_j a' = a_j a
           \<and> ((dataInfo dat \<longrightarrow> d_denseinfo dense = None) \<longrightarrow> nfo = None)"
  using assms
  by (auto simp: dense_node_info_def assertArrays6 Let_def split: option.splits)

lemma dense_node_info_mismatch:
  assumes "dataInfo dat" "d_denseinfo dense = Some di"
    "\<not> (length (di_timestamp di) = length (d_id dense)
             \<and> length (di_changeset di) = length (d_id dense)
             \<and> length (di_uid di) = length (d_id dense)
             \<and> length (di_user_sid di) = length (d_id dense)
             \<and> length (di_version di) = length (d_id dense))"
  shows "dense_node_info dat dense i a = Inl (Error ''input format error'')"
  using assms
  by (auto simp: dense_node_info_def assertArrays6 Let_def split: option.splits)

lemma dense_node_step:
  assumes info: "info_arrays_ok dat dense"
    and tags: "tagging dat dense \<longrightarrow> 0 \<le> a_j a
                 \<and> segment (drop (nat (a_j a)) (d_keys_vals dense)) = Some (ps, r)"
  shows "\<exists>x a'. dense_node dat dense i a = Some (Inr (x, a'))
           \<and> node_id x = a_id a + d_id dense ! i
           \<and> node_lat x = scale dat (lat_offset dat) (a_lat a + d_lat dense ! i)
           \<and> node_lon x = scale dat (lon_offset dat) (a_lon a + d_lon dense ! i)
           \<and> a_id a' = a_id a + d_id dense ! i
           \<and> a_lat a' = a_lat a + d_lat dense ! i
           \<and> a_lon a' = a_lon a + d_lon dense ! i
           \<and> (if tagging dat dense
               then tags_block dat ''node'' (map fst ps) (map snd ps) = Inr (node_tags x)
                    \<and> 0 \<le> a_j a' \<and> drop (nat (a_j a')) (d_keys_vals dense) = r
               else node_tags x = None)
           \<and> ((dataInfo dat \<longrightarrow> d_denseinfo dense = None) \<longrightarrow> node_info x = None)"
proof -
  let ?a1 = "a\<lparr> a_id := a_id a + d_id dense ! i, a_lat := a_lat a + d_lat dense ! i,
                a_lon := a_lon a + d_lon dense ! i \<rparr>"
  obtain tg j where t: "dense_node_tags dat dense (a_j a) = Some (tg, j)"
    and tp: "if tagging dat dense
             then tags_block dat ''node'' (map fst ps) (map snd ps) = Inr tg
                  \<and> 0 \<le> j \<and> drop (nat j) (d_keys_vals dense) = r
             else tg = None"
  proof (cases "tagging dat dense")
    case True
    with tags have "0 \<le> a_j a"
      "segment (drop (nat (a_j a)) (d_keys_vals dense)) = Some (ps, r)" by simp_all
    from dense_node_tags_segment [OF True this] True that \<open>0 \<le> a_j a\<close> show ?thesis
      by auto
  next
    case False
    with dense_node_tags_off [OF False] that show ?thesis by auto
  qed
  from dense_node_info_total [OF info [unfolded info_arrays_ok_def], of i "?a1\<lparr>a_j := j\<rparr>"]
  obtain nfo a' where n: "dense_node_info dat dense i (?a1\<lparr>a_j := j\<rparr>) = Inr (nfo, a')"
    "a_id a' = a_id a + d_id dense ! i" "a_lat a' = a_lat a + d_lat dense ! i"
    "a_lon a' = a_lon a + d_lon dense ! i" "a_j a' = j"
    "(dataInfo dat \<longrightarrow> d_denseinfo dense = None) \<longrightarrow> nfo = None"
    by auto
  have "dense_node dat dense i a
          = Some (Inr (\<lparr> node_id = a_id a', node_lat = scale dat (lat_offset dat) (a_lat a'),
                          node_lon = scale dat (lon_offset dat) (a_lon a'),
                          node_tags = tg, node_info = nfo \<rparr>, a'))"
    using t n(1) by (simp add: dense_node_def Let_def)
  with n(2-6) tp show ?thesis by auto
qed

lemma dense_loop_ok:
  assumes info: "info_arrays_ok dat dense"
  shows "i0 + n = length (d_id dense)
   \<Longrightarrow> length (d_lat dense) = length (d_id dense)
   \<Longrightarrow> length (d_lon dense) = length (d_id dense)
   \<Longrightarrow> tagging dat dense \<longrightarrow> 0 \<le> a_j a
         \<and> segments (drop (nat (a_j a)) (d_keys_vals dense)) n = Some pss
   \<Longrightarrow> \<exists>nodes. dense_loop dat dense [i0 ..< length (d_id dense)] a = Some (Inr nodes)
         \<and> length nodes = n
         \<and> (\<forall>k < n. dense_node_ok dat dense pss a i0 k (nodes ! k))"
proof (induction n arbitrary: i0 a pss)
  case 0
  then show ?case by simp
next
  case (Suc n)
  let ?N = "length (d_id dense)"
  from Suc.prems(1) have i0: "i0 < ?N" by simp
  then have upt: "[i0 ..< ?N] = i0 # [Suc i0 ..< ?N]" by (simp add: upt_conv_Cons)
  obtain ps r pss' where seg: "tagging dat dense \<longrightarrow> 0 \<le> a_j a
       \<and> segment (drop (nat (a_j a)) (d_keys_vals dense)) = Some (ps, r)
       \<and> segments r n = Some pss' \<and> pss = ps # pss'"
  proof (cases "tagging dat dense")
    case True
    with Suc.prems(4) that show ?thesis by (auto split: option.splits)
  next
    case False
    with that show ?thesis by simp
  qed
  then have "tagging dat dense \<longrightarrow> 0 \<le> a_j a
       \<and> segment (drop (nat (a_j a)) (d_keys_vals dense)) = Some (ps, r)" by simp
  from dense_node_step [OF info this, of i0]
  obtain x a' where st: "dense_node dat dense i0 a = Some (Inr (x, a'))"
    "node_id x = a_id a + d_id dense ! i0"
    "node_lat x = scale dat (lat_offset dat) (a_lat a + d_lat dense ! i0)"
    "node_lon x = scale dat (lon_offset dat) (a_lon a + d_lon dense ! i0)"
    "a_id a' = a_id a + d_id dense ! i0"
    "a_lat a' = a_lat a + d_lat dense ! i0"
    "a_lon a' = a_lon a + d_lon dense ! i0"
    "if tagging dat dense
     then tags_block dat ''node'' (map fst ps) (map snd ps) = Inr (node_tags x)
          \<and> 0 \<le> a_j a' \<and> drop (nat (a_j a')) (d_keys_vals dense) = r
     else node_tags x = None"
    "(dataInfo dat \<longrightarrow> d_denseinfo dense = None) \<longrightarrow> node_info x = None"
    by blast
  have nxt: "tagging dat dense \<longrightarrow> 0 \<le> a_j a'
         \<and> segments (drop (nat (a_j a')) (d_keys_vals dense)) n = Some pss'"
    using seg st(8) by auto
  from Suc.IH [OF _ Suc.prems(2,3) nxt, of "Suc i0"] Suc.prems(1)
  obtain nodes where ih: "dense_loop dat dense [Suc i0 ..< ?N] a' = Some (Inr nodes)"
    "length nodes = n"
    "\<forall>k < n. dense_node_ok dat dense pss' a' (Suc i0) k (nodes ! k)"
    by auto
  have dr: "drop i0 (d_id dense) = d_id dense ! i0 # drop (Suc i0) (d_id dense)"
    "drop i0 (d_lat dense) = d_lat dense ! i0 # drop (Suc i0) (d_lat dense)"
    "drop i0 (d_lon dense) = d_lon dense ! i0 # drop (Suc i0) (d_lon dense)"
    using i0 Suc.prems(2,3) by (simp_all add: Cons_nth_drop_Suc)
  have run: "dense_loop dat dense [i0 ..< ?N] a = Some (Inr (x # nodes))"
    unfolding upt using st(1) ih(1) by simp
  have "dense_node_ok dat dense pss a i0 k ((x # nodes) ! k)" if "k < Suc n" for k
  proof (cases k)
    case 0
    with st(2-4,8,9) seg show ?thesis
      unfolding dense_node_ok_def dr by (simp split: if_splits)
  next
    case (Suc k')
    with that have "k' < n" by simp
    with ih(3) have "dense_node_ok dat dense pss' a' (Suc i0) k' (nodes ! k')" by blast
    with Suc st(5-7) seg show ?thesis
      unfolding dense_node_ok_def dr by (simp add: add.assoc split: if_splits)
  qed
  with run ih(2) show ?case by simp
qed

lemma node_out_eqI:
  fixes a b :: node_out
  assumes "node_id a = node_id b" "node_lat a = node_lat b" "node_lon a = node_lon b"
    "node_tags a = node_tags b" "node_info a = node_info b"
  shows "a = b"
  using assms by (cases a, cases b) simp

lemma parse_dense_run:
  "length (d_lat dense) = length (d_id dense) \<Longrightarrow> length (d_lon dense) = length (d_id dense)
   \<Longrightarrow> parse_dense dat dense = dense_loop dat dense [0 ..< length (d_id dense)] dense_init"
  by (simp add: parse_dense_def assertArrays3)

subsection \<open>Dense nodes\<close>

text \<open>
  C3, as amended.  For a dense record whose \<open>id\<close>, \<open>lat\<close> and \<open>lon\<close> arrays have the same
  length \<open>N\<close>, whose info arrays (when info is read) have length \<open>N\<close> too, and whose
  \<open>keys_vals\<close> array (when the tag loop runs) splits into \<open>N\<close> segments each closed by a key
  index 0, the decoder, given the non-zero divisor of the block, returns exactly \<open>N\<close> nodes
  in order: the \<open>k\<close>-th has the sums of the
  first \<open>k + 1\<close> deltas as id and, scaled, as coordinates, and its tags are those of the
  \<open>k\<close>-th segment, the cursor being shared by all nodes.
\<close>

theorem dense_decoding:
  assumes "length (d_lat dense) = length (d_id dense)"
    and "length (d_lon dense) = length (d_id dense)"
    and "info_arrays_ok dat dense"
    and "tagging dat dense
           \<longrightarrow> segments (d_keys_vals dense) (length (d_id dense)) = Some pss"
    and "granularity dat \<noteq> 0"
  shows "\<exists>nodes. parse_dense dat dense = Some (Inr nodes)
           \<and> length nodes = length (d_id dense)
           \<and> (\<forall>k < length (d_id dense).
                 node_id (nodes ! k) = sum_list (take (Suc k) (d_id dense))
                 \<and> node_lat (nodes ! k)
                     = lat_offset dat
                       + real_of_int (sum_list (take (Suc k) (d_lat dense))) / granularity dat
                 \<and> node_lon (nodes ! k)
                     = lon_offset dat
                       + real_of_int (sum_list (take (Suc k) (d_lon dense))) / granularity dat
                 \<and> (if tagging dat dense
                     then tags_block dat ''node'' (map fst (pss ! k)) (map snd (pss ! k))
                            = Inr (node_tags (nodes ! k))
                     else node_tags (nodes ! k) = None)
                 \<and> ((dataInfo dat \<longrightarrow> d_denseinfo dense = None)
                      \<longrightarrow> node_info (nodes ! k) = None))"
proof -
  have "tagging dat dense \<longrightarrow> 0 \<le> a_j dense_init
          \<and> segments (drop (nat (a_j dense_init)) (d_keys_vals dense)) (length (d_id dense))
              = Some pss"
    using assms(4) by (simp add: dense_init_def)
  from dense_loop_ok [OF assms(3) _ assms(1,2) this, of 0]
  show ?thesis
    unfolding parse_dense_run [OF assms(1,2)]
    by (simp add: dense_init_def scale_def dense_node_ok_def)
qed

text \<open>
  The divisor that \<open>parse\<close> hands to the decoders is never 0, which is what the division
  of the model relies on.
\<close>

lemma block_data_granularity: "granularity (block_data w b) \<noteq> 0"
  by (simp add: block_data_def)

text \<open>The scenario of the specification, for any block data.\<close>

lemma dense_scenario:
  "granularity dat \<noteq> 0
   \<Longrightarrow> parse_dense dat \<lparr> d_id = [1, 1, 1], d_lat = [0, 0, 0], d_lon = [0, 0, 0],
                     d_keys_vals = [], d_denseinfo = None \<rparr>
     = Some (Inr [\<lparr> node_id = 1, node_lat = lat_offset dat, node_lon = lon_offset dat,
                    node_tags = None, node_info = None \<rparr>,
                  \<lparr> node_id = 2, node_lat = lat_offset dat, node_lon = lon_offset dat,
                    node_tags = None, node_info = None \<rparr>,
                  \<lparr> node_id = 3, node_lat = lat_offset dat, node_lon = lon_offset dat,
                    node_tags = None, node_info = None \<rparr>])"
  by (simp add: parse_dense_def assertArrays3 upt_rec [of 0] upt_rec [of 1] upt_rec [of 2]
        dense_node_def dense_node_tags_def dense_node_info_def dense_init_def scale_def
        Let_def split: option.splits)

text \<open>Three nodes with tags on the first and the third; the second segment is empty.\<close>

theorem dense_decoding_witness:
  "parse_dense ex_data \<lparr> d_id = [1, 1, 1], d_lat = [0, 0, 0], d_lon = [0, 0, 0],
                         d_keys_vals = [1, 2, 0, 0, 4, 5, 0], d_denseinfo = None \<rparr>
     = Some (Inr [\<lparr> node_id = 1, node_lat = 59, node_lon = 10,
                    node_tags = Some [(''name'', Some ''Oslo'')], node_info = None \<rparr>,
                  \<lparr> node_id = 2, node_lat = 59, node_lon = 10,
                    node_tags = None, node_info = None \<rparr>,
                  \<lparr> node_id = 3, node_lat = 59, node_lon = 10,
                    node_tags = Some [(''highway'', Some ''primary'')], node_info = None \<rparr>])"
proof -
  let ?pss = "[[(1, 2)], [], [(4, 5)]] :: (int \<times> int) list list"
  let ?d = "\<lparr> d_id = [1, 1, 1], d_lat = [0, 0, 0], d_lon = [0, 0, 0],
               d_keys_vals = [1, 2, 0, 0, 4, 5, 0], d_denseinfo = None \<rparr>"
  have tg: "tagging ex_data ?d"
    by (simp add: tagging_def ex_data_def ex_with_def kind_opt_def truthy_def)
  have sg: "segments (d_keys_vals ?d) (length (d_id ?d)) = Some ?pss"
    by (simp add: numeral_3_eq_3)
  have io: "info_arrays_ok ex_data ?d" by (simp add: info_arrays_ok_def)
  have g: "granularity ex_data \<noteq> 0" by (simp add: ex_data_def)
  have "length (d_lat ?d) = length (d_id ?d)" "length (d_lon ?d) = length (d_id ?d)"
    by simp_all
  from dense_decoding [OF this io _ g, of ?pss] sg
  obtain nodes where n: "parse_dense ex_data ?d = Some (Inr nodes)" "length nodes = 3"
    and f: "\<forall>k < 3. node_id (nodes ! k) = sum_list (take (Suc k) (d_id ?d))
                 \<and> node_lat (nodes ! k)
                     = lat_offset ex_data
                       + real_of_int (sum_list (take (Suc k) (d_lat ?d))) / granularity ex_data
                 \<and> node_lon (nodes ! k)
                     = lon_offset ex_data
                       + real_of_int (sum_list (take (Suc k) (d_lon ?d))) / granularity ex_data
                 \<and> tags_block ex_data ''node'' (map fst (?pss ! k))
                            (map snd (?pss ! k))
                            = Inr (node_tags (nodes ! k))"
    and i: "\<forall>k < 3. node_info (nodes ! k) = None"
    using tg by auto
  have ev: "tags_block ex_data ''node'' [1] [2] = Inr (Some [(''name'', Some ''Oslo'')])"
    "tags_block ex_data ''node'' [] [] = Inr None"
    "tags_block ex_data ''node'' [4] [5] = Inr (Some [(''highway'', Some ''primary'')])"
    by (simp_all add: ex_data_def tags_block_def kind_opt_def ex_with_def truthy_def
          assertArrays2 put_tag_def set_prop_def js_index_def passes_def prop_name_def isEmpty_tags_def)
  from f [rule_format, of 0] ev
  have f0: "node_id (nodes ! 0) = 1" "node_lat (nodes ! 0) = 59" "node_lon (nodes ! 0) = 10"
      "node_tags (nodes ! 0) = Some [(''name'', Some ''Oslo'')]"
    by (simp_all add: ex_data_def)
  from f [rule_format, of 1] ev
  have f1: "node_id (nodes ! 1) = 2" "node_lat (nodes ! 1) = 59" "node_lon (nodes ! 1) = 10"
      "node_tags (nodes ! 1) = None"
    by (simp_all add: ex_data_def)
  from f [rule_format, of 2] ev
  have f2: "node_id (nodes ! 2) = 3" "node_lat (nodes ! 2) = 59" "node_lon (nodes ! 2) = 10"
      "node_tags (nodes ! 2) = Some [(''highway'', Some ''primary'')]"
    by (simp_all add: ex_data_def)
  from n(2) obtain x0 x1 x2 where l: "nodes = [x0, x1, x2]"
    by (auto simp: length_Suc_conv numeral_3_eq_3)
  from i have i': "node_info (nodes ! 0) = None" "node_info (nodes ! 1) = None"
    "node_info (nodes ! 2) = None" by simp_all
  have "x0 = \<lparr> node_id = 1, node_lat = 59, node_lon = 10,
                 node_tags = Some [(''name'', Some ''Oslo'')], node_info = None \<rparr>"
    by (rule node_out_eqI) (use f0 i' l in simp_all)
  moreover have "x1 = \<lparr> node_id = 2, node_lat = 59, node_lon = 10,
                    node_tags = None, node_info = None \<rparr>"
    by (rule node_out_eqI) (use f1 i' l in simp_all)
  moreover have "x2 = \<lparr> node_id = 3, node_lat = 59, node_lon = 10,
                    node_tags = Some [(''highway'', Some ''primary'')], node_info = None \<rparr>"
    by (rule node_out_eqI) (use f2 i' l in simp_all)
  ultimately show ?thesis unfolding n(1) l by simp
qed

text \<open>
  C3 as stated fails on two records with parallel \<open>id\<close>, \<open>lat\<close>, \<open>lon\<close>: with a \<open>keys_vals\<close>
  array that has no closing 0 the tag loop never ends, and with info arrays of another
  length the decoder throws.
\<close>

theorem dense_decoding_counterexample:
  "parse_dense ex_data \<lparr> d_id = [1], d_lat = [0], d_lon = [0], d_keys_vals = [1, 2],
                         d_denseinfo = None \<rparr> = None
   \<and> parse_dense ex_data
        \<lparr> d_id = [1], d_lat = [0], d_lon = [0], d_keys_vals = [],
          d_denseinfo = Some \<lparr> di_version = [], di_timestamp = [], di_changeset = [],
                                di_uid = [], di_user_sid = [], di_visible = [] \<rparr> \<rparr>
       = Some (Inl (Error ''input format error''))"
proof
  let ?d = "\<lparr> d_id = [1], d_lat = [0], d_lon = [0], d_keys_vals = [1, 2],
               d_denseinfo = None \<rparr>"
  have "tagging ex_data ?d"
    by (simp add: tagging_def ex_data_def ex_with_def kind_opt_def truthy_def)
  then have "dense_node_tags ex_data ?d 0 = None"
    by (rule dense_node_tags_hang) simp_all
  then show "parse_dense ex_data ?d = None"
    by (simp add: parse_dense_def assertArrays3 dense_node_def dense_init_def)
next
  show "parse_dense ex_data
        \<lparr> d_id = [1], d_lat = [0], d_lon = [0], d_keys_vals = [],
          d_denseinfo = Some \<lparr> di_version = [], di_timestamp = [], di_changeset = [],
                                di_uid = [], di_user_sid = [], di_visible = [] \<rparr> \<rparr>
       = Some (Inl (Error ''input format error''))"
  proof -
    let ?di = "\<lparr> di_version = [], di_timestamp = [], di_changeset = [],
                  di_uid = [], di_user_sid = [], di_visible = [] \<rparr>"
    let ?d = "\<lparr> d_id = [1], d_lat = [0], d_lon = [0], d_keys_vals = [],
                 d_denseinfo = Some ?di \<rparr>"
    have t: "dense_node_tags ex_data ?d j = Some (None, j)" for j
      by (rule dense_node_tags_off) (simp add: tagging_def)
    have i: "dense_node_info ex_data ?d 0 a = Inl (Error ''input format error'')" for a
      by (rule dense_node_info_mismatch [where di = ?di]) (simp_all add: ex_data_def)
    show ?thesis
      by (simp add: parse_dense_def assertArrays3 dense_node_def t i)
  qed
qed

lemma parse_node_mismatch:
  "truthy (kind_opt (dataTags dat) ''node'') \<Longrightarrow> length (n_keys n) \<noteq> length (n_vals n)
   \<Longrightarrow> parse_node dat n = Inl (Error ''input format error'')"
  by (simp add: parse_node_def tags_block_mismatch)

lemma parse_way_mismatch:
  "truthy (kind_opt (dataTags dat) ''way'') \<Longrightarrow> length (w_keys y) \<noteq> length (w_vals y)
   \<Longrightarrow> parse_way dat y = Inl (Error ''input format error'')"
  by (simp add: parse_way_def tags_block_mismatch)

lemma parse_rel_mismatch:
  "truthy (kind_opt (dataTags dat) ''relation'') \<Longrightarrow> length (r_keys r) \<noteq> length (r_vals r)
   \<Longrightarrow> parse_rel dat r = Inl (Error ''input format error'')"
  by (simp add: parse_rel_def tags_block_mismatch assertArrays3)

lemma parse_rel_members_mismatch:
  "\<not> (length (r_memids r) = length (r_types r) \<and> length (r_memids r) = length (r_roles_sid r))
   \<Longrightarrow> parse_rel dat r = Inl (Error ''input format error'')"
  by (auto simp: parse_rel_def assertArrays3)

lemma parse_dense_info_mismatch:
  assumes "dataInfo dat" "d_denseinfo dense = Some di" "d_id dense \<noteq> []"
    and "tagging dat dense \<longrightarrow> segment (d_keys_vals dense) \<noteq> None"
    and "\<not> (length (di_timestamp di) = length (d_id dense)
             \<and> length (di_changeset di) = length (d_id dense)
             \<and> length (di_uid di) = length (d_id dense)
             \<and> length (di_user_sid di) = length (d_id dense)
             \<and> length (di_version di) = length (d_id dense))"
  shows "parse_dense dat dense = Some (Inl (Error ''input format error''))"
proof (cases "length (d_lat dense) = length (d_id dense)
              \<and> length (d_lon dense) = length (d_id dense)")
  case False
  then show ?thesis by (auto simp: parse_dense_def assertArrays3)
next
  case True
  from assms(3) have upt: "[0 ..< length (d_id dense)] = 0 # [Suc 0 ..< length (d_id dense)]"
    by (simp add: upt_conv_Cons)
  obtain tg j where t: "dense_node_tags dat dense (a_j dense_init) = Some (tg, j)"
  proof (cases "tagging dat dense")
    case False
    from dense_node_tags_off [OF this] that show ?thesis by blast
  next
    case True
    with assms(4) obtain ps r where "segment (drop (nat 0) (d_keys_vals dense)) = Some (ps, r)"
      by auto
    from dense_node_tags_segment [OF True _ this] that show ?thesis
      by (auto simp: dense_init_def)
  qed
  have "dense_node dat dense 0 dense_init = Some (Inl (Error ''input format error''))"
    using t dense_node_info_mismatch [OF assms(1,2,5)]
    by (simp add: dense_node_def Let_def)
  with True show ?thesis
    unfolding parse_dense_run [OF conjunct1 [OF True] conjunct2 [OF True]] upt by simp
qed

subsection \<open>Dense records that decode\<close>

text \<open>
  What a run of the dense loop that returns nodes tells about the record: the info arrays
  were parallel to \<open>id\<close>, the tag segments were closed, and every node has the info of its
  running sums.
\<close>

lemma dense_node_info_frame:
  assumes "dense_node_info dat dense i a = Inr (nfo, a')"
  shows "a_id a' = a_id a" "a_lat a' = a_lat a" "a_lon a' = a_lon a" "a_j a' = a_j a"
  using assms
  by (auto simp: dense_node_info_def Let_def split: option.splits sum.splits if_splits)

lemma dense_node_info_none:
  assumes "dense_node_info dat dense i a = Inr (nfo, a')"
    and "\<not> dataInfo dat \<or> d_denseinfo dense = None"
  shows "nfo = None" "a' = a"
  using assms
  by (auto simp: dense_node_info_def Let_def split: option.splits sum.splits if_splits)

lemma dense_node_info_some:
  assumes "dense_node_info dat dense i a = Inr (nfo, a')"
    and "dataInfo dat" "d_denseinfo dense = Some di"
  shows "length (di_timestamp di) = length (d_id dense)
         \<and> length (di_changeset di) = length (d_id dense)
         \<and> length (di_uid di) = length (d_id dense)
         \<and> length (di_user_sid di) = length (d_id dense)
         \<and> length (di_version di) = length (d_id dense)"
    and "nfo = info_block dat
                 (Some \<lparr> i_version = di_version di ! i,
                         i_timestamp = a_timestamp a + di_timestamp di ! i,
                         i_changeset = a_changeset a + di_changeset di ! i,
                         i_uid = a_uid a + di_uid di ! i,
                         i_user_sid = a_user_sid a + di_user_sid di ! i,
                         i_visible = js_index (di_visible di) (int i) \<rparr>)"
    and "a_timestamp a' = a_timestamp a + di_timestamp di ! i"
      "a_changeset a' = a_changeset a + di_changeset di ! i"
      "a_uid a' = a_uid a + di_uid di ! i"
      "a_user_sid a' = a_user_sid a + di_user_sid di ! i"
  using assms
  by (auto simp: dense_node_info_def Let_def assertArrays6 info_block_def
           split: option.splits sum.splits if_splits)

lemma dense_node_Inr:
  assumes "dense_node dat dense i a = Some (Inr (x, a'))"
  obtains tg j where "dense_node_tags dat dense (a_j a) = Some (tg, j)"
    and "dense_node_info dat dense i
           (a\<lparr> a_id := a_id a + d_id dense ! i, a_lat := a_lat a + d_lat dense ! i,
              a_lon := a_lon a + d_lon dense ! i, a_j := j \<rparr>) = Inr (node_info x, a')"
    and "node_tags x = tg"
  using assms
  by (auto simp: dense_node_def Let_def split: option.splits sum.splits prod.splits)

lemma dense_loop_Cons_Inr:
  assumes "dense_loop dat dense (i # rest) a = Some (Inr nodes)"
  obtains x a' nodes' where "dense_node dat dense i a = Some (Inr (x, a'))"
    and "dense_loop dat dense rest a' = Some (Inr nodes')" and "nodes = x # nodes'"
  using assms by (auto split: option.splits sum.splits prod.splits)

lemma dense_loop_segments:
  "dense_loop dat dense [i0 ..< i0 + n] a = Some (Inr nodes) \<Longrightarrow> tagging dat dense
   \<Longrightarrow> 0 \<le> a_j a
   \<Longrightarrow> \<exists>pss. segments (drop (nat (a_j a)) (d_keys_vals dense)) n = Some pss"
proof (induction n arbitrary: i0 a nodes)
  case 0
  then show ?case by simp
next
  case (Suc n)
  have upt: "[i0 ..< i0 + Suc n] = i0 # [Suc i0 ..< Suc i0 + n]" by (simp add: upt_conv_Cons)
  from Suc.prems(1) [unfolded upt]
  obtain x a' nodes' where st: "dense_node dat dense i0 a = Some (Inr (x, a'))"
    and rest: "dense_loop dat dense [Suc i0 ..< Suc i0 + n] a' = Some (Inr nodes')"
    by (rule dense_loop_Cons_Inr)
  from st obtain tg j where t: "dense_node_tags dat dense (a_j a) = Some (tg, j)"
    and i: "dense_node_info dat dense i0
           (a\<lparr> a_id := a_id a + d_id dense ! i0, a_lat := a_lat a + d_lat dense ! i0,
              a_lon := a_lon a + d_lon dense ! i0, a_j := j \<rparr>) = Inr (node_info x, a')"
    by (rule dense_node_Inr)
  from dense_node_info_frame(4) [OF i] have j: "a_j a' = j" by simp
  from t dense_node_tags_hang [OF Suc.prems(2,3)]
  obtain ps r where sg: "segment (drop (nat (a_j a)) (d_keys_vals dense)) = Some (ps, r)"
    by (cases "segment (drop (nat (a_j a)) (d_keys_vals dense))") auto
  from dense_node_tags_segment [OF Suc.prems(2,3) sg] t
  have j': "j = a_j a + 2 * int (length ps) + 1" "drop (nat j) (d_keys_vals dense) = r"
    by auto
  with Suc.prems(3) j have "0 \<le> a_j a'" by simp
  from Suc.IH [OF rest Suc.prems(2) this] j j'(2)
  obtain pss where "segments r n = Some pss" by auto
  with sg show ?case by simp
qed

lemma dense_loop_info:
  "dense_loop dat dense [i0 ..< i0 + n] a = Some (Inr nodes) \<Longrightarrow> i0 + n = length (d_id dense)
   \<Longrightarrow> length nodes = n
       \<and> (0 < n \<longrightarrow> info_arrays_ok dat dense)
       \<and> (\<forall>k < n. node_info (nodes ! k)
                     = (case (if dataInfo dat then d_denseinfo dense else None) of
                          None \<Rightarrow> None
                        | Some di \<Rightarrow> info_block dat (Some (dense_info_from di a i0 k))))"
proof (induction n arbitrary: i0 a nodes)
  case 0
  then show ?case by simp
next
  case (Suc n)
  have upt: "[i0 ..< i0 + Suc n] = i0 # [Suc i0 ..< Suc i0 + n]" by (simp add: upt_conv_Cons)
  from Suc.prems(1) [unfolded upt]
  obtain x a' nodes' where st: "dense_node dat dense i0 a = Some (Inr (x, a'))"
    and rest: "dense_loop dat dense [Suc i0 ..< Suc i0 + n] a' = Some (Inr nodes')"
    and nodes: "nodes = x # nodes'"
    by (rule dense_loop_Cons_Inr)
  from st obtain tg j where
    i: "dense_node_info dat dense i0
           (a\<lparr> a_id := a_id a + d_id dense ! i0, a_lat := a_lat a + d_lat dense ! i0,
              a_lon := a_lon a + d_lon dense ! i0, a_j := j \<rparr>) = Inr (node_info x, a')"
    by (rule dense_node_Inr)
  from Suc.prems(2) have i0: "i0 < length (d_id dense)" "Suc i0 + n = length (d_id dense)"
    by simp_all
  note ih = Suc.IH [OF rest i0(2)]
  show ?case
  proof (cases "dataInfo dat \<and> d_denseinfo dense \<noteq> None")
    case False
    then have off: "(if dataInfo dat then d_denseinfo dense else None) = None" by auto
    from dense_node_info_none(1) [OF i] False have x: "node_info x = None" by blast
    have ok: "info_arrays_ok dat dense" using False by (auto simp: info_arrays_ok_def)
    have "node_info ((x # nodes') ! k) = None" if "k < Suc n" for k
      using that x ih off by (cases k) simp_all
    with ih ok nodes off show ?thesis by simp
  next
    case True
    then obtain di where di: "dataInfo dat" "d_denseinfo dense = Some di" by auto
    then have on: "(if dataInfo dat then d_denseinfo dense else None) = Some di" by simp
    note s = dense_node_info_some [OF i di]
    from s(1) have ok: "info_arrays_ok dat dense" using di by (simp add: info_arrays_ok_def)
    from s(1) i0(1) have dr:
      "drop i0 (di_timestamp di) = di_timestamp di ! i0 # drop (Suc i0) (di_timestamp di)"
      "drop i0 (di_changeset di) = di_changeset di ! i0 # drop (Suc i0) (di_changeset di)"
      "drop i0 (di_uid di) = di_uid di ! i0 # drop (Suc i0) (di_uid di)"
      "drop i0 (di_user_sid di) = di_user_sid di ! i0 # drop (Suc i0) (di_user_sid di)"
      by (simp_all add: Cons_nth_drop_Suc)
    have "node_info ((x # nodes') ! k) = info_block dat (Some (dense_info_from di a i0 k))"
      if "k < Suc n" for k
    proof (cases k)
      case 0
      with s(2) show ?thesis by (simp add: dense_info_from_def dr)
    next
      case (Suc k')
      with that have "k' < n" by simp
      with ih on have "node_info (nodes' ! k')
                         = info_block dat (Some (dense_info_from di a' (Suc i0) k'))" by simp
      moreover have "dense_info_from di a' (Suc i0) k' = dense_info_from di a i0 (Suc k')"
        unfolding dense_info_from_def dr s(3-6) by (simp add: add.assoc)
      ultimately show ?thesis using Suc by simp
    qed
    with ih ok nodes on show ?thesis by simp
  qed
qed

lemma parse_dense_Inr:
  assumes "parse_dense dat dense = Some (Inr nodes)"
  shows "length (d_lat dense) = length (d_id dense)"
    and "length (d_lon dense) = length (d_id dense)"
    and "dense_loop dat dense [0 ..< 0 + length (d_id dense)] dense_init = Some (Inr nodes)"
  using assms by (auto simp: parse_dense_def assertArrays3 split: if_splits)

lemma parse_dense_info:
  assumes "parse_dense dat dense = Some (Inr nodes)" "k < length nodes"
  shows "node_info (nodes ! k)
           = info_block dat
               (map_option
                  (\<lambda>di. \<lparr> i_version = di_version di ! k,
                           i_timestamp = sum_list (take (Suc k) (di_timestamp di)),
                           i_changeset = sum_list (take (Suc k) (di_changeset di)),
                           i_uid = sum_list (take (Suc k) (di_uid di)),
                           i_user_sid = sum_list (take (Suc k) (di_user_sid di)),
                           i_visible = js_index (di_visible di) (int k) \<rparr>)
                  (d_denseinfo dense))"
proof -
  from dense_loop_info [OF parse_dense_Inr(3) [OF assms(1)]] assms(2)
  have "node_info (nodes ! k)
          = (case (if dataInfo dat then d_denseinfo dense else None) of
               None \<Rightarrow> None
             | Some di \<Rightarrow> info_block dat (Some (dense_info_from di dense_init 0 k)))"
    by simp
  then show ?thesis
    by (cases "d_denseinfo dense")
       (simp_all add: info_block_def dense_info_from_def dense_init_def)
qed

lemma parse_dense_tags:
  assumes "parse_dense dat dense = Some (Inr nodes)" "k < length nodes"
  shows "if tagging dat dense
         then \<exists>pss. segments (d_keys_vals dense) (length nodes) = Some pss
                \<and> tags_block dat ''node'' (map fst (pss ! k)) (map snd (pss ! k))
                    = Inr (node_tags (nodes ! k))
         else node_tags (nodes ! k) = None"
proof -
  note p = parse_dense_Inr [OF assms(1)]
  from dense_loop_info [OF p(3)] assms(2)
  have len: "length nodes = length (d_id dense)" and info: "info_arrays_ok dat dense"
    by auto
  obtain pss where pss: "tagging dat dense \<longrightarrow> 0 \<le> a_j dense_init
         \<and> segments (drop (nat (a_j dense_init)) (d_keys_vals dense)) (length (d_id dense))
             = Some pss"
  proof (cases "tagging dat dense")
    case True
    from dense_loop_segments [OF p(3) True] that show ?thesis
      by (auto simp: dense_init_def)
  next
    case False
    with that show ?thesis by simp
  qed
  from dense_loop_ok [OF info _ p(1,2) pss, of 0] p(3)
  have "dense_node_ok dat dense pss dense_init 0 k (nodes ! k)"
    using assms(2) len by auto
  with pss len show ?thesis by (auto simp: dense_node_ok_def dense_init_def)
qed


lemma parse_dense_total:
  assumes "length (d_lat dense) = length (d_id dense)"
    and "length (d_lon dense) = length (d_id dense)"
    and "info_arrays_ok dat dense"
    and "tagging dat dense
           \<longrightarrow> segments (d_keys_vals dense) (length (d_id dense)) = Some pss"
  shows "\<exists>nodes. parse_dense dat dense = Some (Inr nodes)"
proof -
  have "tagging dat dense \<longrightarrow> 0 \<le> a_j dense_init
          \<and> segments (drop (nat (a_j dense_init)) (d_keys_vals dense)) (length (d_id dense))
              = Some pss"
    using assms(4) by (simp add: dense_init_def)
  from dense_loop_ok [OF assms(3) _ assms(1,2) this, of 0]
  show ?thesis
    unfolding parse_dense_run [OF assms(1,2)] by auto
qed


subsection \<open>Info of the decoded entities\<close>

text \<open>
  C4.  The record built by \<open>fill_info\<close> has \<open>version\<close>, \<open>changeset\<close> and \<open>uid\<close> exactly when
  the wire number is not 0, \<open>timestamp\<close> exactly when the raw count is not 0 and then equal
  to the count times \<open>date_granularity\<close>, \<open>user\<close> exactly when \<open>user_sid\<close> is not 0 and the
  string read is a non-empty string, and \<open>visible\<close> exactly when the wire value is \<open>false\<close>.
  With info enabled and a wire info present, the entity carries this record when some
  field qualifies and carries no info at all otherwise.  This holds for every node, way
  and relation that is decoded, and for every node that \<open>parse_dense\<close> returns: the wire
  info of its \<open>k\<close>-th node has the \<open>k\<close>-th \<open>version\<close> and \<open>visible\<close> entries and, as
  \<open>timestamp\<close>, \<open>changeset\<close>, \<open>uid\<close> and \<open>user_sid\<close>, the sums of the first \<open>k + 1\<close> deltas.
\<close>

theorem info_reconstruction:
  "version (fill_info dat i) = (if i_version i \<noteq> 0 then Some (i_version i) else None)
   \<and> timestamp (fill_info dat i)
       = (if i_timestamp i \<noteq> 0 then Some (i_timestamp i * date_granularity dat) else None)
   \<and> changeset (fill_info dat i) = (if i_changeset i \<noteq> 0 then Some (i_changeset i) else None)
   \<and> uid (fill_info dat i) = (if i_uid i \<noteq> 0 then Some (i_uid i) else None)
   \<and> user (fill_info dat i)
       = (if i_user_sid i \<noteq> 0
          then (case js_index (strings dat) (i_user_sid i) of
                  None \<Rightarrow> None
                | Some s \<Rightarrow> if s \<noteq> [] then Some s else None)
          else None)
   \<and> visible (fill_info dat i) = (if i_visible i = Some False then Some False else None)
   \<and> info_block dat (Some i)
       = (if dataInfo dat \<and> qualifies dat i then Some (fill_info dat i) else None)
   \<and> info_block dat None = None
   \<and> (\<forall>n x. parse_node dat n = Inr x \<longrightarrow> node_info x = info_block dat (n_info n))
   \<and> (\<forall>y x. parse_way dat y = Inr x \<longrightarrow> way_info x = info_block dat (w_info y))
   \<and> (\<forall>r x. parse_rel dat r = Inr x \<longrightarrow> rel_info x = info_block dat (r_info r))
   \<and> (\<forall>dense nodes k.
         parse_dense dat dense = Some (Inr nodes) \<and> k < length nodes
         \<longrightarrow> node_info (nodes ! k)
               = info_block dat
                   (map_option
                      (\<lambda>di. \<lparr> i_version = di_version di ! k,
                               i_timestamp = sum_list (take (Suc k) (di_timestamp di)),
                               i_changeset = sum_list (take (Suc k) (di_changeset di)),
                               i_uid = sum_list (take (Suc k) (di_uid di)),
                               i_user_sid = sum_list (take (Suc k) (di_user_sid di)),
                               i_visible = js_index (di_visible di) (int k) \<rparr>)
                      (d_denseinfo dense)))"
proof -
  have "info_block dat None = None" by (simp add: info_block_def)
  then show ?thesis
    using fill_info_sel [of dat i] info_block_Some [of dat i] parse_node_info [of dat]
      parse_way_info [of dat] parse_rel_info [of dat] parse_dense_info [of dat]
    by blast
qed

text \<open>
  A node whose wire \<open>visible\<close> is \<open>false\<close>, a way whose only set field is \<open>visible = true\<close>
  (no info at all), and three dense nodes with running sums, the last of which has no
  qualifying field.
\<close>

theorem info_reconstruction_witness:
  "parse_node ex_data \<lparr> n_id = 7, n_lat = 0, n_lon = 0, n_keys = [], n_vals = [],
                         n_info = Some (ex_info\<lparr> i_visible := Some False \<rparr>) \<rparr>
     = Inr \<lparr> node_id = 7, node_lat = 59, node_lon = 10, node_tags = None,
             node_info = Some \<lparr> version = Some 3, timestamp = Some 5000, changeset = None,
                                 uid = None, user = Some ''alice'', visible = Some False \<rparr> \<rparr>
   \<and> parse_way ex_data
        \<lparr> w_id = 8, w_refs = [], w_keys = [], w_vals = [],
          w_info = Some \<lparr> i_version = 0, i_timestamp = 0, i_changeset = 0, i_uid = 0,
                          i_user_sid = 0, i_visible = Some True \<rparr> \<rparr>
     = Inr \<lparr> way_id = 8, way_refs = [], way_tags = None, way_info = None \<rparr>
   \<and> parse_dense ex_data \<lparr> d_id = [1, 1, 1], d_lat = [0, 0, 0], d_lon = [0, 0, 0],
                            d_keys_vals = [], d_denseinfo = Some ex_dinfo3 \<rparr>
     = Some (Inr [\<lparr> node_id = 1, node_lat = 59, node_lon = 10, node_tags = None,
                    node_info = Some \<lparr> version = Some 1, timestamp = Some 5000,
                                        changeset = Some 2, uid = Some 4,
                                        user = Some ''alice'', visible = None \<rparr> \<rparr>,
                  \<lparr> node_id = 2, node_lat = 59, node_lon = 10, node_tags = None,
                    node_info = Some \<lparr> version = None, timestamp = Some 8000,
                                        changeset = Some 2, uid = Some 5,
                                        user = Some ''alice'', visible = Some False \<rparr> \<rparr>,
                  \<lparr> node_id = 3, node_lat = 59, node_lon = 10, node_tags = None,
                    node_info = None \<rparr>])"
proof -
  let ?i = "ex_info\<lparr> i_visible := Some False \<rparr>"
  let ?n = "\<lparr> n_id = 7, n_lat = 0, n_lon = 0, n_keys = [], n_vals = [], n_info = Some ?i \<rparr>"
  let ?iy = "\<lparr> i_version = 0, i_timestamp = 0, i_changeset = 0, i_uid = 0,
                i_user_sid = 0, i_visible = Some True \<rparr>"
  let ?y = "\<lparr> w_id = 8, w_refs = [], w_keys = [], w_vals = [], w_info = Some ?iy \<rparr>"
  let ?d = "\<lparr> d_id = [1, 1, 1], d_lat = [0, 0, 0], d_lon = [0, 0, 0],
               d_keys_vals = [], d_denseinfo = Some ex_dinfo3 \<rparr>"
  note t = info_reconstruction [of ex_data ?i]
  note ty = info_reconstruction [of ex_data ?iy]
  have f: "fill_info ex_data ?i
             = \<lparr> version = Some 3, timestamp = Some 5000, changeset = None,
                 uid = None, user = Some ''alice'', visible = Some False \<rparr>"
    by (rule info_out_eqI; use t in \<open>simp add: ex_data_def ex_info_def js_index_def\<close>)
  have q: "qualifies ex_data ?i" by (simp add: qualifies_def ex_info_def)
  have b: "info_block ex_data (Some ?i) = Some (fill_info ex_data ?i)"
    using t q by (simp add: ex_data_def)
  obtain x where x: "parse_node ex_data ?n = Inr x"
    and xs: "node_id x = 7" "node_lat x = 59" "node_lon x = 10" "node_tags x = None"
    by (simp add: parse_node_def tags_block_def kind_opt_def ex_data_def ex_with_def truthy_def
          assertArrays_def assert_def isEmpty_tags_def scale_def)
  from t x have "node_info x = info_block ex_data (n_info ?n)" by blast
  with b f have "node_info x = Some \<lparr> version = Some 3, timestamp = Some 5000,
                   changeset = None, uid = None, user = Some ''alice'',
                   visible = Some False \<rparr>" by simp
  with xs have "x = \<lparr> node_id = 7, node_lat = 59, node_lon = 10, node_tags = None,
             node_info = Some \<lparr> version = Some 3, timestamp = Some 5000, changeset = None,
                                 uid = None, user = Some ''alice'', visible = Some False \<rparr> \<rparr>"
    by (intro node_out_eqI) simp_all
  with x have 1: "parse_node ex_data ?n
     = Inr \<lparr> node_id = 7, node_lat = 59, node_lon = 10, node_tags = None,
             node_info = Some \<lparr> version = Some 3, timestamp = Some 5000, changeset = None,
                                 uid = None, user = Some ''alice'', visible = Some False \<rparr> \<rparr>"
    by simp
  have qy: "\<not> qualifies ex_data ?iy" by (simp add: qualifies_def)
  with ty have by': "info_block ex_data (Some ?iy) = None" by simp
  obtain w where w: "parse_way ex_data ?y = Inr w"
    and ws: "way_id w = 8" "way_refs w = []" "way_tags w = None"
    by (simp add: parse_way_def tags_block_def kind_opt_def ex_data_def ex_with_def truthy_def
          assertArrays_def assert_def isEmpty_tags_def)
  from ty w have "way_info w = info_block ex_data (w_info ?y)" by blast
  with by' have "way_info w = None" by simp
  with ws have "w = \<lparr> way_id = 8, way_refs = [], way_tags = None, way_info = None \<rparr>"
    by (cases w) simp
  with w have 2: "parse_way ex_data ?y
                    = Inr \<lparr> way_id = 8, way_refs = [], way_tags = None, way_info = None \<rparr>"
    by simp
  obtain nodes where pd: "parse_dense ex_data ?d = Some (Inr nodes)"
    and sh: "map node_id nodes = [1, 2, 3]" "map node_lat nodes = [59, 59, 59]"
      "map node_lon nodes = [10, 10, 10]" "map node_tags nodes = [None, None, None]"
    by (simp add: parse_dense_def assertArrays3 assertArrays6 upt_rec [of 0] upt_rec [of 1]
          upt_rec [of 2] dense_node_def dense_node_tags_def dense_node_info_def dense_init_def
          ex_dinfo3_def ex_data_def ex_with_def kind_opt_def truthy_def scale_def Let_def)
  from sh(1) obtain x0 x1 x2 where l: "nodes = [x0, x1, x2]" by auto
  have ev: "info_block ex_data
              (Some \<lparr> i_version = 1, i_timestamp = 5, i_changeset = 2, i_uid = 4,
                      i_user_sid = 3, i_visible = Some True \<rparr>)
              = Some \<lparr> version = Some 1, timestamp = Some 5000, changeset = Some 2,
                       uid = Some 4, user = Some ''alice'', visible = None \<rparr>"
    "info_block ex_data
              (Some \<lparr> i_version = 0, i_timestamp = 8, i_changeset = 2, i_uid = 5,
                      i_user_sid = 3, i_visible = Some False \<rparr>)
              = Some \<lparr> version = None, timestamp = Some 8000, changeset = Some 2,
                       uid = Some 5, user = Some ''alice'', visible = Some False \<rparr>"
    "info_block ex_data
              (Some \<lparr> i_version = 0, i_timestamp = 0, i_changeset = 0, i_uid = 0,
                      i_user_sid = 0, i_visible = None \<rparr>)
              = None"
    by (simp_all add: info_block_def fill_info_def isEmpty_info_def empty_info_def
          ex_data_def js_index_def Let_def)
  have lk: "k < length nodes
        \<Longrightarrow> node_info (nodes ! k)
               = info_block ex_data
                   (map_option
                      (\<lambda>di. \<lparr> i_version = di_version di ! k,
                               i_timestamp = sum_list (take (Suc k) (di_timestamp di)),
                               i_changeset = sum_list (take (Suc k) (di_changeset di)),
                               i_uid = sum_list (take (Suc k) (di_uid di)),
                               i_user_sid = sum_list (take (Suc k) (di_user_sid di)),
                               i_visible = js_index (di_visible di) (int k) \<rparr>)
                      (d_denseinfo ?d))" for k
    using t pd by blast
  from lk [of 0] lk [of 1] lk [of 2] ev
  have i: "node_info x0 = Some \<lparr> version = Some 1, timestamp = Some 5000, changeset = Some 2,
                       uid = Some 4, user = Some ''alice'', visible = None \<rparr>"
    "node_info x1 = Some \<lparr> version = None, timestamp = Some 8000, changeset = Some 2,
                       uid = Some 5, user = Some ''alice'', visible = Some False \<rparr>"
    "node_info x2 = None"
    by (simp_all add: l ex_dinfo3_def js_index_def)
  have 3: "parse_dense ex_data ?d
     = Some (Inr [\<lparr> node_id = 1, node_lat = 59, node_lon = 10, node_tags = None,
                    node_info = Some \<lparr> version = Some 1, timestamp = Some 5000,
                                        changeset = Some 2, uid = Some 4,
                                        user = Some ''alice'', visible = None \<rparr> \<rparr>,
                  \<lparr> node_id = 2, node_lat = 59, node_lon = 10, node_tags = None,
                    node_info = Some \<lparr> version = None, timestamp = Some 8000,
                                        changeset = Some 2, uid = Some 5,
                                        user = Some ''alice'', visible = Some False \<rparr> \<rparr>,
                  \<lparr> node_id = 3, node_lat = 59, node_lon = 10, node_tags = None,
                    node_info = None \<rparr>])"
    unfolding pd l using sh i by (auto simp: l intro!: node_out_eqI)
  from 1 2 3 show ?thesis by simp
qed

subsection \<open>Parallel arrays\<close>

text \<open>
  C8, as amended.  A plain node, way or relation whose kind has the policy \<open>AllowAll\<close> or
  \<open>AllowSet S\<close> fails with the format error when \<open>keys\<close> and \<open>vals\<close> differ in length; a
  relation fails under any policy when \<open>memids\<close>, \<open>types\<close> and \<open>roles_sid\<close> differ in length.
  A dense record with at least one node, decoded with info enabled and holding a dense info,
  whose first tag segment is closed by a key index 0 when the tag loop runs, fails with
  the format error when \<open>timestamp\<close>, \<open>changeset\<close>, \<open>uid\<close>, \<open>user_sid\<close> or \<open>version\<close> differs
  in length from \<open>id\<close>.  The length of \<open>visible\<close> is not looked at: a dense record whose
  \<open>lat\<close> and \<open>lon\<close> are as long as \<open>id\<close>, whose five info arrays are as long as \<open>id\<close> when
  info is read, and whose \<open>keys_vals\<close> splits into closed segments when the tag loop runs,
  is decoded without error.
\<close>

theorem parallel_arrays_checked:
  "((kind_opt (dataTags dat) ''node'' = Some AllowAll
       \<or> kind_opt (dataTags dat) ''node'' = Some (AllowSet Sn))
      \<and> length (n_keys n) \<noteq> length (n_vals n)
      \<longrightarrow> parse_node dat n = Inl (Error ''input format error''))
   \<and> ((kind_opt (dataTags dat) ''way'' = Some AllowAll
         \<or> kind_opt (dataTags dat) ''way'' = Some (AllowSet Sw))
        \<and> length (w_keys y) \<noteq> length (w_vals y)
      \<longrightarrow> parse_way dat y = Inl (Error ''input format error''))
   \<and> ((kind_opt (dataTags dat) ''relation'' = Some AllowAll
         \<or> kind_opt (dataTags dat) ''relation'' = Some (AllowSet Sr))
        \<and> length (r_keys r) \<noteq> length (r_vals r)
      \<longrightarrow> parse_rel dat r = Inl (Error ''input format error''))
   \<and> (\<not> (length (r_memids r) = length (r_types r)
           \<and> length (r_memids r) = length (r_roles_sid r))
      \<longrightarrow> parse_rel dat r = Inl (Error ''input format error''))
   \<and> (dataInfo dat \<and> d_denseinfo dense = Some di \<and> d_id dense \<noteq> []
       \<and> (tagging dat dense \<longrightarrow> segment (d_keys_vals dense) \<noteq> None)
       \<and> \<not> (length (di_timestamp di) = length (d_id dense)
             \<and> length (di_changeset di) = length (d_id dense)
             \<and> length (di_uid di) = length (d_id dense)
             \<and> length (di_user_sid di) = length (d_id dense)
             \<and> length (di_version di) = length (d_id dense))
      \<longrightarrow> parse_dense dat dense = Some (Inl (Error ''input format error'')))
   \<and> (length (d_lat dense') = length (d_id dense')
       \<and> length (d_lon dense') = length (d_id dense')
       \<and> info_arrays_ok dat dense'
       \<and> (tagging dat dense'
            \<longrightarrow> segments (d_keys_vals dense') (length (d_id dense')) = Some pss)
      \<longrightarrow> (\<exists>nodes. parse_dense dat dense' = Some (Inr nodes)))"
proof -
  have t: "p = Some AllowAll \<or> p = Some (AllowSet S) \<Longrightarrow> truthy p" for p S
    by (auto simp: truthy_def)
  show ?thesis
    using parse_node_mismatch [of dat n, OF t [of _ Sn]]
      parse_way_mismatch [of dat y, OF t [of _ Sw]]
      parse_rel_mismatch [of dat r, OF t [of _ Sr]] parse_rel_members_mismatch [of r dat]
      parse_dense_info_mismatch [of dat dense di] parse_dense_total [of dense' dat pss]
    by blast
qed

text \<open>
  One record per conjunct; the last one has two nodes and a \<open>visible\<close> array of length 1.
\<close>

theorem parallel_arrays_checked_witness:
  "parse_node ex_data \<lparr> n_id = 1, n_lat = 0, n_lon = 0, n_keys = [1], n_vals = [],
                        n_info = None \<rparr> = Inl (Error ''input format error'')
   \<and> parse_way ex_filtered \<lparr> w_id = 1, w_refs = [], w_keys = [1], w_vals = [], w_info = None \<rparr>
       = Inl (Error ''input format error'')
   \<and> parse_node ex_filtered \<lparr> n_id = 1, n_lat = 0, n_lon = 0, n_keys = [], n_vals = [1],
                        n_info = None \<rparr> = Inl (Error ''input format error'')
   \<and> parse_rel ex_data \<lparr> r_id = 1, r_memids = [], r_types = [], r_roles_sid = [],
                          r_keys = [1], r_vals = [], r_info = None \<rparr>
       = Inl (Error ''input format error'')
   \<and> parse_rel ex_filtered \<lparr> r_id = 1, r_memids = [1], r_types = [], r_roles_sid = [1],
                          r_keys = [], r_vals = [], r_info = None \<rparr>
       = Inl (Error ''input format error'')
   \<and> parse_dense ex_data \<lparr> d_id = [1], d_lat = [0], d_lon = [0], d_keys_vals = [0],
                            d_denseinfo = Some (ex_dinfo\<lparr> di_uid := [] \<rparr>) \<rparr>
       = Some (Inl (Error ''input format error''))
   \<and> parse_dense ex_data \<lparr> d_id = [1, 1], d_lat = [0, 0], d_lon = [0, 0], d_keys_vals = [],
                            d_denseinfo = Some \<lparr> di_version = [1, 2], di_timestamp = [0, 0],
                                                  di_changeset = [0, 0], di_uid = [0, 0],
                                                  di_user_sid = [0, 0],
                                                  di_visible = [False] \<rparr> \<rparr>
       = Some (Inr [\<lparr> node_id = 1, node_lat = 59, node_lon = 10, node_tags = None,
                      node_info = Some \<lparr> version = Some 1, timestamp = None,
                                          changeset = None, uid = None, user = None,
                                          visible = Some False \<rparr> \<rparr>,
                    \<lparr> node_id = 2, node_lat = 59, node_lon = 10, node_tags = None,
                      node_info = Some \<lparr> version = Some 2, timestamp = None,
                                          changeset = None, uid = None, user = None,
                                          visible = None \<rparr> \<rparr>])"
proof -
  let ?n = "\<lparr> n_id = 1, n_lat = 0, n_lon = 0, n_keys = [1], n_vals = [], n_info = None \<rparr>"
  let ?n' = "\<lparr> n_id = 1, n_lat = 0, n_lon = 0, n_keys = [], n_vals = [1], n_info = None \<rparr>"
  let ?y = "\<lparr> w_id = 1, w_refs = [], w_keys = [1], w_vals = [], w_info = None \<rparr>"
  let ?r = "\<lparr> r_id = 1, r_memids = [], r_types = [], r_roles_sid = [],
                          r_keys = [1], r_vals = [], r_info = None \<rparr>"
  let ?r' = "\<lparr> r_id = 1, r_memids = [1], r_types = [], r_roles_sid = [1],
                          r_keys = [], r_vals = [], r_info = None \<rparr>"
  let ?di = "ex_dinfo\<lparr> di_uid := [] \<rparr>"
  let ?d = "\<lparr> d_id = [1], d_lat = [0], d_lon = [0], d_keys_vals = [0],
                            d_denseinfo = Some ?di \<rparr>"
  let ?di' = "\<lparr> di_version = [1, 2], di_timestamp = [0, 0], di_changeset = [0, 0],
                 di_uid = [0, 0], di_user_sid = [0, 0], di_visible = [False] \<rparr>"
  let ?d' = "\<lparr> d_id = [1, 1], d_lat = [0, 0], d_lon = [0, 0], d_keys_vals = [],
                d_denseinfo = Some ?di' \<rparr>"
  have k: "kind_opt (dataTags ex_data) ''node'' = Some AllowAll"
    "kind_opt (dataTags ex_data) ''relation'' = Some AllowAll" "dataInfo ex_data"
    "kind_opt (dataTags ex_filtered) ''node'' = Some (AllowSet [JString ''name''])"
    "kind_opt (dataTags ex_filtered) ''way'' = Some AllowAll"
    by (simp_all add: ex_filtered_def ex_data_def ex_with_def kind_opt_def)
  have io: "info_arrays_ok ex_data ?d'" by (simp add: info_arrays_ok_def)
  have nt: "\<not> tagging ex_data ?d'" by (simp add: tagging_def)
  note T = parallel_arrays_checked [of ex_data "[]" ?n "[]" ?y "[]" ?r ?d ?di ?d' "[]"]
  note T' = parallel_arrays_checked
              [of ex_filtered "[JString ''name'']" ?n' "[]" ?y "[]" ?r' ?d ?di ?d' "[]"]
  have 1: "parse_node ex_data ?n = Inl (Error ''input format error'')"
    by (rule T [THEN conjunct1, THEN mp]) (simp add: k)
  have 2: "parse_way ex_filtered ?y = Inl (Error ''input format error'')"
    by (rule T' [THEN conjunct2, THEN conjunct1, THEN mp]) (simp add: k)
  have 3: "parse_node ex_filtered ?n' = Inl (Error ''input format error'')"
    by (rule T' [THEN conjunct1, THEN mp]) (simp add: k)
  have 4: "parse_rel ex_data ?r = Inl (Error ''input format error'')"
    by (rule T [THEN conjunct2, THEN conjunct2, THEN conjunct1, THEN mp]) (simp add: k)
  have 5: "parse_rel ex_filtered ?r' = Inl (Error ''input format error'')"
    by (rule T' [THEN conjunct2, THEN conjunct2, THEN conjunct2, THEN conjunct1, THEN mp])
       simp
  have 6: "parse_dense ex_data ?d = Some (Inl (Error ''input format error''))"
    by (rule T [THEN conjunct2, THEN conjunct2, THEN conjunct2, THEN conjunct2,
                THEN conjunct1, THEN mp])
       (simp add: k ex_dinfo_def)
  have 7: "\<exists>nodes. parse_dense ex_data ?d' = Some (Inr nodes)"
    by (rule T [THEN conjunct2, THEN conjunct2, THEN conjunct2, THEN conjunct2,
                THEN conjunct2, THEN mp])
       (simp add: io nt)
  have f: "fill_info ex_data \<lparr> i_version = 1, i_timestamp = 0, i_changeset = 0, i_uid = 0,
                              i_user_sid = 0, i_visible = Some False \<rparr>
             = \<lparr> version = Some 1, timestamp = None, changeset = None, uid = None,
                 user = None, visible = Some False \<rparr>"
    "fill_info ex_data \<lparr> i_version = 2, i_timestamp = 0, i_changeset = 0, i_uid = 0,
                              i_user_sid = 0, i_visible = None \<rparr>
             = \<lparr> version = Some 2, timestamp = None, changeset = None, uid = None,
                 user = None, visible = None \<rparr>"
    by (simp_all add: fill_info_def empty_info_def)
  have g: "kind_opt (dataTags ex_data) ''node'' = Some AllowAll" "dataInfo ex_data"
    "lat_offset ex_data = 59" "lon_offset ex_data = 10" "granularity ex_data = 10000000"
    by (simp_all add: ex_data_def ex_with_def kind_opt_def)
  from 7 obtain nodes where pn: "parse_dense ex_data ?d' = Some (Inr nodes)" by blast
  have "nodes = [\<lparr> node_id = 1, node_lat = 59, node_lon = 10, node_tags = None,
                      node_info = Some \<lparr> version = Some 1, timestamp = None,
                                          changeset = None, uid = None, user = None,
                                          visible = Some False \<rparr> \<rparr>,
                    \<lparr> node_id = 2, node_lat = 59, node_lon = 10, node_tags = None,
                      node_info = Some \<lparr> version = Some 2, timestamp = None,
                                          changeset = None, uid = None, user = None,
                                          visible = None \<rparr> \<rparr>]"
    using pn
    by (simp add: parse_dense_def assertArrays3 assertArrays6 upt_rec [of 0] upt_rec [of 1]
          dense_node_def dense_node_tags_def dense_node_info_def dense_init_def
          truthy_def scale_def Let_def js_index_def f isEmpty_info_def empty_info_def g)
  with pn have 8: "parse_dense ex_data ?d'
       = Some (Inr [\<lparr> node_id = 1, node_lat = 59, node_lon = 10, node_tags = None,
                      node_info = Some \<lparr> version = Some 1, timestamp = None,
                                          changeset = None, uid = None, user = None,
                                          visible = Some False \<rparr> \<rparr>,
                    \<lparr> node_id = 2, node_lat = 59, node_lon = 10, node_tags = None,
                      node_info = Some \<lparr> version = Some 2, timestamp = None,
                                          changeset = None, uid = None, user = None,
                                          visible = None \<rparr> \<rparr>])"
    by simp
  from 1 2 3 4 5 6 8 show ?thesis by simp
qed

text \<open>
  C8 as stated fails: a \<open>visible\<close> array of another length than \<open>id\<close> is accepted; \<open>keys\<close>
  and \<open>vals\<close> of different lengths are accepted when the tags of the kind are not read;
  with \<open>uid\<close> of another length than \<open>id\<close> the decoder does not fail when the first tag
  segment is not closed (the tag loop never ends), when the record has no node, or when
  info is not read.
\<close>

theorem parallel_arrays_counterexample:
  "parse_dense ex_data \<lparr> d_id = [1], d_lat = [0], d_lon = [0], d_keys_vals = [],
                         d_denseinfo = Some ex_dinfo \<rparr>
     = Some (Inr [\<lparr> node_id = 1, node_lat = 59, node_lon = 10, node_tags = None,
                    node_info = Some \<lparr> version = Some 1, timestamp = None, changeset = None,
                                        uid = None, user = None, visible = None \<rparr> \<rparr>])
   \<and> length (di_visible ex_dinfo) \<noteq> length [1 :: int]
   \<and> parse_node (ex_data\<lparr> dataTags := [(''node'', Disabled)] \<rparr>)
        \<lparr> n_id = 1, n_lat = 0, n_lon = 0, n_keys = [1], n_vals = [], n_info = None \<rparr>
     = Inr \<lparr> node_id = 1, node_lat = 59, node_lon = 10, node_tags = None, node_info = None \<rparr>
   \<and> parse_dense ex_data \<lparr> d_id = [1], d_lat = [0], d_lon = [0], d_keys_vals = [1, 2],
                            d_denseinfo = Some (ex_dinfo\<lparr> di_uid := [] \<rparr>) \<rparr>
     = None
   \<and> parse_dense ex_data \<lparr> d_id = [], d_lat = [], d_lon = [], d_keys_vals = [],
                            d_denseinfo = Some ex_dinfo \<rparr>
     = Some (Inr [])
   \<and> parse_dense (ex_data\<lparr> dataInfo := False \<rparr>)
        \<lparr> d_id = [1], d_lat = [0], d_lon = [0], d_keys_vals = [],
          d_denseinfo = Some (ex_dinfo\<lparr> di_uid := [] \<rparr>) \<rparr>
     = Some (Inr [\<lparr> node_id = 1, node_lat = 59, node_lon = 10, node_tags = None,
                    node_info = None \<rparr>])"
proof -
  let ?h = "\<lparr> d_id = [1], d_lat = [0], d_lon = [0], d_keys_vals = [1, 2],
               d_denseinfo = Some (ex_dinfo\<lparr> di_uid := [] \<rparr>) \<rparr>"
  have "tagging ex_data ?h"
    by (simp add: tagging_def ex_data_def ex_with_def kind_opt_def truthy_def)
  then have "dense_node_tags ex_data ?h 0 = None"
    by (rule dense_node_tags_hang) simp_all
  then have h: "parse_dense ex_data ?h = None"
    by (simp add: parse_dense_def assertArrays3 dense_node_def dense_init_def)
  have e: "parse_dense ex_data \<lparr> d_id = [], d_lat = [], d_lon = [], d_keys_vals = [],
                            d_denseinfo = Some ex_dinfo \<rparr> = Some (Inr [])"
    by (simp add: parse_dense_def assertArrays3)
  have g: "kind_opt (dataTags ex_data) ''node'' = Some AllowAll" "dataInfo ex_data"
    "lat_offset ex_data = 59" "lon_offset ex_data = 10" "granularity ex_data = 10000000"
    by (simp_all add: ex_data_def ex_with_def kind_opt_def)
  have f: "fill_info ex_data \<lparr> i_version = 1, i_timestamp = 0, i_changeset = 0, i_uid = 0,
                              i_user_sid = 0, i_visible = None \<rparr>
             = \<lparr> version = Some 1, timestamp = None, changeset = None, uid = None,
                 user = None, visible = None \<rparr>"
    by (simp add: fill_info_def empty_info_def)
  have v: "parse_dense ex_data \<lparr> d_id = [1], d_lat = [0], d_lon = [0], d_keys_vals = [],
                         d_denseinfo = Some ex_dinfo \<rparr>
     = Some (Inr [\<lparr> node_id = 1, node_lat = 59, node_lon = 10, node_tags = None,
                    node_info = Some \<lparr> version = Some 1, timestamp = None, changeset = None,
                                        uid = None, user = None, visible = None \<rparr> \<rparr>])"
    by (simp add: parse_dense_def assertArrays3 assertArrays6 dense_node_def dense_init_def
          dense_node_tags_def dense_node_info_def ex_dinfo_def g f isEmpty_info_def
          empty_info_def js_index_def scale_def Let_def)
  have l: "length (di_visible ex_dinfo) \<noteq> length [1 :: int]"
    by (simp add: ex_dinfo_def)
  have d: "parse_node (ex_data\<lparr> dataTags := [(''node'', Disabled)] \<rparr>)
        \<lparr> n_id = 1, n_lat = 0, n_lon = 0, n_keys = [1], n_vals = [], n_info = None \<rparr>
     = Inr \<lparr> node_id = 1, node_lat = 59, node_lon = 10, node_tags = None, node_info = None \<rparr>"
    by (simp add: parse_node_def tags_block_def kind_opt_def truthy_def info_block_def
          scale_def ex_data_def)
  have o: "parse_dense (ex_data\<lparr> dataInfo := False \<rparr>)
        \<lparr> d_id = [1], d_lat = [0], d_lon = [0], d_keys_vals = [],
          d_denseinfo = Some (ex_dinfo\<lparr> di_uid := [] \<rparr>) \<rparr>
     = Some (Inr [\<lparr> node_id = 1, node_lat = 59, node_lon = 10, node_tags = None,
                    node_info = None \<rparr>])"
    by (simp add: parse_dense_def assertArrays3 dense_node_def dense_init_def
          dense_node_tags_def dense_node_info_def g scale_def Let_def)
  from h e v l d o show ?thesis by simp
qed

lemma tags_distinct:
  assumes "kind_opt (dataTags dat) kind = Some opt" "truthy (Some opt)"
    "length keys = length vals" "tags_block dat kind keys vals = Inr (Some t)"
    "distinct (map fst (selected opt (decoded_pairs (strings dat) keys vals)))"
    "(n, v) \<in> set (selected opt (decoded_pairs (strings dat) keys vals))"
    and pf: "proto_free opt (decoded_pairs (strings dat) keys vals)"
  shows "map_of t n = Some v"
proof -
  from assms(4) tags_block_on [OF assms(1-3)]
  have "t = tag_loop (strings dat) opt [] keys vals" by (simp split: if_splits)
  with tag_loop_map_of [OF assms(3), of "strings dat" opt "[]"]
  have "map_of t = last_value (selected opt (decoded_pairs (strings dat) keys vals))"
    by (simp add: stored_selected [OF pf])
  with last_value_distinct [OF assms(5,6)] show ?thesis by simp
qed

subsection \<open>Tag policies\<close>

text \<open>
  C2, as amended.  Under \<open>Disabled\<close> no tags are attached.  For a record none of whose
  pairs let through by the policy has the key \<open>__proto__\<close>: under \<open>AllowAll\<close> tags are
  attached exactly when the record has a pair, under \<open>AllowSet S\<close> exactly when some decoded
  key is in \<open>S\<close>; the attached object maps each decoded (and allowed) key to the value of
  the last pair with that key, hence holds every such pair when no key is repeated.  Under
  the empty set no tags are attached.  Plain nodes, ways and relations carry the result of
  this block on their \<open>keys\<close> and \<open>vals\<close>; the \<open>i\<close>-th node that \<open>parse_dense\<close> returns carries
  the result of the same block on the \<open>i\<close>-th segment of \<open>keys_vals\<close> when the tag loop runs,
  and no tags when it does not.
\<close>

theorem tag_filter_laws:
  "(kind_opt (dataTags dat) kind = Some Disabled \<longrightarrow> tags_block dat kind keys vals = Inr None)
   \<and> (kind_opt (dataTags dat) kind = Some AllowAll \<and> length keys = length vals
       \<and> proto_free AllowAll (decoded_pairs (strings dat) keys vals)
      \<longrightarrow> (\<exists>tg. tags_block dat kind keys vals = Inr tg
             \<and> (tg \<noteq> None \<longleftrightarrow> keys \<noteq> [])
             \<and> (\<forall>t. tg = Some t
                   \<longrightarrow> map_of t = last_value (map (\<lambda>(k, v). (prop_name k, v))
                                                (decoded_pairs (strings dat) keys vals)))))
   \<and> (kind_opt (dataTags dat) kind = Some (AllowSet S) \<and> length keys = length vals
       \<and> proto_free (AllowSet S) (decoded_pairs (strings dat) keys vals)
      \<longrightarrow> (\<exists>tg. tags_block dat kind keys vals = Inr tg
             \<and> (tg \<noteq> None \<longleftrightarrow> (\<exists>k \<in> set keys. set_has S (js_index (strings dat) k)))
             \<and> (\<forall>t. tg = Some t
                   \<longrightarrow> map_of t = last_value (map (\<lambda>(k, v). (prop_name k, v))
                                     (filter (\<lambda>(k, v). set_has S k)
                                        (decoded_pairs (strings dat) keys vals))))))
   \<and> (kind_opt (dataTags dat) kind = Some (AllowSet [])
      \<longrightarrow> tags_block dat kind keys vals \<noteq> Inr (Some t0))
   \<and> (kind_opt (dataTags dat) kind = Some opt \<and> truthy (Some opt)
       \<and> length keys = length vals \<and> tags_block dat kind keys vals = Inr (Some t1)
       \<and> proto_free opt (decoded_pairs (strings dat) keys vals)
       \<and> distinct (map fst (selected opt (decoded_pairs (strings dat) keys vals)))
       \<and> (nm, vl) \<in> set (selected opt (decoded_pairs (strings dat) keys vals))
      \<longrightarrow> map_of t1 nm = Some vl)
   \<and> (parse_node dat n = Inr xn
      \<longrightarrow> tags_block dat ''node'' (n_keys n) (n_vals n) = Inr (node_tags xn))
   \<and> (parse_way dat y = Inr xw
      \<longrightarrow> tags_block dat ''way'' (w_keys y) (w_vals y) = Inr (way_tags xw))
   \<and> (parse_rel dat r = Inr xr
      \<longrightarrow> tags_block dat ''relation'' (r_keys r) (r_vals r) = Inr (rel_tags xr))
   \<and> (parse_dense dat dense = Some (Inr nodes) \<and> i < length nodes
      \<longrightarrow> (if tagging dat dense
           then \<exists>pss. segments (d_keys_vals dense) (length nodes) = Some pss
                  \<and> tags_block dat ''node'' (map fst (pss ! i)) (map snd (pss ! i))
                      = Inr (node_tags (nodes ! i))
           else node_tags (nodes ! i) = None))"
proof -
  have 1: "kind_opt (dataTags dat) kind = Some Disabled
             \<longrightarrow> tags_block dat kind keys vals = Inr None"
    by (simp add: tags_block_off truthy_def)
  have 5: "kind_opt (dataTags dat) kind = Some opt \<and> truthy (Some opt)
       \<and> length keys = length vals \<and> tags_block dat kind keys vals = Inr (Some t1)
       \<and> proto_free opt (decoded_pairs (strings dat) keys vals)
       \<and> distinct (map fst (selected opt (decoded_pairs (strings dat) keys vals)))
       \<and> (nm, vl) \<in> set (selected opt (decoded_pairs (strings dat) keys vals))
      \<longrightarrow> map_of t1 nm = Some vl"
    using tags_distinct [of dat kind opt keys vals t1 nm vl] by blast
  have 9: "parse_dense dat dense = Some (Inr nodes) \<and> i < length nodes
      \<longrightarrow> (if tagging dat dense
           then \<exists>pss. segments (d_keys_vals dense) (length nodes) = Some pss
                  \<and> tags_block dat ''node'' (map fst (pss ! i)) (map snd (pss ! i))
                      = Inr (node_tags (nodes ! i))
           else node_tags (nodes ! i) = None)"
    using parse_dense_tags [of dat dense nodes i] by blast
  show ?thesis
    by (intro conjI impI 1 [rule_format] 5 [rule_format] 9 [rule_format] tags_all tags_set
          tags_empty_set parse_node_tags parse_way_tags parse_rel_tags;
        (elim conjE)?; assumption?)
qed


text \<open>
  C2 as stated fails when a key is repeated: both pairs are decoded and only the second
  one is in the tags.  It also fails for the key \<open>__proto__\<close>: the record has a pair and the
  node has no tags.
\<close>

theorem tag_filter_laws_counterexample:
  "parse_node ex_data \<lparr> n_id = 1, n_lat = 0, n_lon = 0, n_keys = [1, 1], n_vals = [2, 4],
                        n_info = None \<rparr>
     = Inr \<lparr> node_id = 1, node_lat = 59, node_lon = 10,
             node_tags = Some [(''name'', Some ''highway'')], node_info = None \<rparr>
   \<and> kind_opt (dataTags ex_data) ''node'' = Some AllowAll
   \<and> decoded_pairs (strings ex_data) [1, 1] [2, 4]
       = [(Some ''name'', Some ''Oslo''), (Some ''name'', Some ''highway'')]
   \<and> map_of [(''name'', Some ''highway'')] ''name'' \<noteq> Some (Some ''Oslo'')
   \<and> parse_node (ex_data\<lparr> strings := ['''', ''__proto__'', ''Oslo''] \<rparr>)
        \<lparr> n_id = 1, n_lat = 0, n_lon = 0, n_keys = [1], n_vals = [2], n_info = None \<rparr>
     = Inr \<lparr> node_id = 1, node_lat = 59, node_lon = 10, node_tags = None, node_info = None \<rparr>
   \<and> kind_opt (dataTags (ex_data\<lparr> strings := ['''', ''__proto__'', ''Oslo''] \<rparr>)) ''node''
       = Some AllowAll
   \<and> decoded_pairs (strings (ex_data\<lparr> strings := ['''', ''__proto__'', ''Oslo''] \<rparr>)) [1] [2]
       = [(Some ''__proto__'', Some ''Oslo'')]"
  by (simp add: parse_node_def tags_block_def kind_opt_def ex_data_def ex_with_def truthy_def
        assertArrays2 put_tag_def set_prop_def js_index_def passes_def prop_name_def
        isEmpty_tags_def info_block_def scale_def decoded_pairs_def Let_def)

text \<open>One record for each policy, plain and dense.\<close>

theorem tag_filter_laws_witness:
  "parse_rel ex_filtered \<lparr> r_id = 3, r_memids = [], r_types = [], r_roles_sid = [],
                            r_keys = [1], r_vals = [2], r_info = None \<rparr>
     = Inr \<lparr> rel_id = 3, rel_members = [], rel_tags = None, rel_info = None \<rparr>
   \<and> parse_way ex_filtered \<lparr> w_id = 2, w_refs = [], w_keys = [1, 4], w_vals = [2, 5],
                              w_info = None \<rparr>
     = Inr \<lparr> way_id = 2, way_refs = [],
             way_tags = Some [(''name'', Some ''Oslo''), (''highway'', Some ''primary'')],
             way_info = None \<rparr>
   \<and> map_of [(''name'', Some ''Oslo''), (''highway'', Some ''primary'')] ''highway''
       = Some (Some ''primary'')
   \<and> parse_node ex_filtered \<lparr> n_id = 1, n_lat = 0, n_lon = 0, n_keys = [4, 1],
                               n_vals = [5, 2], n_info = None \<rparr>
     = Inr \<lparr> node_id = 1, node_lat = 59, node_lon = 10,
             node_tags = Some [(''name'', Some ''Oslo'')], node_info = None \<rparr>
   \<and> tags_block ex_filtered ''node'' [4] [5] = Inr None
   \<and> tags_block (ex_data\<lparr> dataTags := [(''node'', AllowSet [])] \<rparr>) ''node'' [1] [2]
       \<noteq> Inr (Some [(''name'', Some ''Oslo'')])
   \<and> parse_dense ex_filtered
        \<lparr> d_id = [1, 1], d_lat = [0, 0], d_lon = [0, 0],
          d_keys_vals = [4, 5, 1, 2, 0, 4, 5, 0], d_denseinfo = None \<rparr>
       = Some (Inr [\<lparr> node_id = 1, node_lat = 59, node_lon = 10,
                      node_tags = Some [(''name'', Some ''Oslo'')], node_info = None \<rparr>,
                    \<lparr> node_id = 2, node_lat = 59, node_lon = 10,
                      node_tags = None, node_info = None \<rparr>])"
proof -
  let ?r = "\<lparr> r_id = 3, r_memids = [], r_types = [], r_roles_sid = [],
               r_keys = [1], r_vals = [2], r_info = None \<rparr>"
  let ?y = "\<lparr> w_id = 2, w_refs = [], w_keys = [1, 4], w_vals = [2, 5], w_info = None \<rparr>"
  let ?n = "\<lparr> n_id = 1, n_lat = 0, n_lon = 0, n_keys = [4, 1], n_vals = [5, 2],
               n_info = None \<rparr>"
  let ?d = "\<lparr> d_id = [1, 1], d_lat = [0, 0], d_lon = [0, 0],
               d_keys_vals = [4, 5, 1, 2, 0, 4, 5, 0], d_denseinfo = None \<rparr>"
  let ?pss = "[[(4, 5), (1, 2)], [(4, 5)]] :: (int \<times> int) list list"
  let ?wt = "[(''name'', Some ''Oslo''), (''highway'', Some ''primary'')]"
  have k: "kind_opt (dataTags ex_filtered) ''relation'' = Some Disabled"
    "kind_opt (dataTags ex_filtered) ''way'' = Some AllowAll"
    "kind_opt (dataTags ex_filtered) ''node'' = Some (AllowSet [JString ''name''])"
    by (simp_all add: ex_filtered_def kind_opt_def)
  have g: "strings ex_filtered = ['''', ''name'', ''Oslo'', ''alice'', ''highway'', ''primary'']"
    "lat_offset ex_filtered = 59" "lon_offset ex_filtered = 10"
    "granularity ex_filtered = 10000000"
    by (simp_all add: ex_filtered_def ex_data_def)
  have dp: "decoded_pairs (strings ex_filtered) [1, 4] [2, 5]
              = [(Some ''name'', Some ''Oslo''), (Some ''highway'', Some ''primary'')]"
    "decoded_pairs (strings ex_filtered) [4, 1] [5, 2]
              = [(Some ''highway'', Some ''primary''), (Some ''name'', Some ''Oslo'')]"
    by (simp_all add: decoded_pairs_def g js_index_def)
  have sl: "selected AllowAll (decoded_pairs (strings ex_filtered) [1, 4] [2, 5]) = ?wt"
    "selected (AllowSet [JString ''name'']) (decoded_pairs (strings ex_filtered) [4, 1] [5, 2])
       = [(''name'', Some ''Oslo'')]"
    unfolding dp by (simp_all add: selected_def passes_def set_has_def prop_name_def)
  have pf: "proto_free AllowAll (decoded_pairs (strings ex_filtered) [1, 4] [2, 5])"
    "proto_free (AllowSet [JString ''name''])
       (decoded_pairs (strings ex_filtered) [4, 1] [5, 2])"
    unfolding proto_free_def sl by simp_all
  have ev: "tags_block ex_filtered ''way'' [1, 4] [2, 5] = Inr (Some ?wt)"
    "tags_block ex_filtered ''node'' [4, 1] [5, 2] = Inr (Some [(''name'', Some ''Oslo'')])"
    "tags_block ex_filtered ''node'' [4] [5] = Inr None"
    by (simp_all add: tags_block_def k truthy_def assertArrays2 put_tag_def set_prop_def
          js_index_def passes_def set_has_def prop_name_def isEmpty_tags_def g)
  note T = tag_filter_laws [where dat = ex_filtered]
  have b1: "tags_block ex_filtered ''relation'' [1] [2] = Inr None"
    using T [where kind = "''relation''" and keys = "[1]" and vals = "[2]", THEN conjunct1] k(1)
    by (rule mp)
  obtain xr where xr: "parse_rel ex_filtered ?r = Inr xr"
    and xrs: "rel_id xr = 3" "rel_members xr = []" "rel_info xr = None"
    by (simp add: parse_rel_def assertArrays3 tags_block_def k truthy_def info_block_def)
  have "tags_block ex_filtered ''relation'' (r_keys ?r) (r_vals ?r) = Inr (rel_tags xr)"
    by (rule T [where r = ?r and xr = xr,
                THEN conjunct2, THEN conjunct2, THEN conjunct2, THEN conjunct2, THEN conjunct2,
                THEN conjunct2, THEN conjunct2, THEN conjunct1, THEN mp])
       (rule xr)
  with b1 have "rel_tags xr = None" by simp
  with xrs have "xr = \<lparr> rel_id = 3, rel_members = [], rel_tags = None, rel_info = None \<rparr>"
    by (cases xr) simp
  with xr have 1: "parse_rel ex_filtered ?r
                     = Inr \<lparr> rel_id = 3, rel_members = [], rel_tags = None, rel_info = None \<rparr>"
    by simp
  have "\<exists>tg. tags_block ex_filtered ''way'' [1, 4] [2, 5] = Inr tg
          \<and> (tg \<noteq> None \<longleftrightarrow> [1, 4 :: int] \<noteq> [])
          \<and> (\<forall>t. tg = Some t
                \<longrightarrow> map_of t = last_value (map (\<lambda>(k, v). (prop_name k, v))
                                   (decoded_pairs (strings ex_filtered) [1, 4] [2, 5])))"
    by (rule T [where kind = "''way''" and keys = "[1, 4]" and vals = "[2, 5]",
                THEN conjunct2, THEN conjunct1, THEN mp])
       (simp add: k(2) pf)
  then have b2: "tags_block ex_filtered ''way'' [1, 4] [2, 5] \<noteq> Inr None"
    by auto
  obtain xw where xw: "parse_way ex_filtered ?y = Inr xw"
    and xws: "way_id xw = 2" "way_refs xw = []" "way_info xw = None"
    by (simp add: parse_way_def ev info_block_def)
  have "tags_block ex_filtered ''way'' (w_keys ?y) (w_vals ?y) = Inr (way_tags xw)"
    by (rule T [where y = ?y and xw = xw,
                THEN conjunct2, THEN conjunct2, THEN conjunct2, THEN conjunct2, THEN conjunct2,
                THEN conjunct2, THEN conjunct1, THEN mp])
       (rule xw)
  with ev(1) have "way_tags xw = Some ?wt" by simp
  with xws have "xw = \<lparr> way_id = 2, way_refs = [], way_tags = Some ?wt, way_info = None \<rparr>"
    by (cases xw) simp
  with xw have 2: "parse_way ex_filtered ?y
                     = Inr \<lparr> way_id = 2, way_refs = [], way_tags = Some ?wt, way_info = None \<rparr>"
    by simp
  have 3: "map_of ?wt ''highway'' = Some (Some ''primary'')"
    by (rule T [where kind = "''way''" and keys = "[1, 4]" and vals = "[2, 5]"
                  and opt = AllowAll and ?t1.0 = ?wt,
                THEN conjunct2, THEN conjunct2, THEN conjunct2, THEN conjunct2, THEN conjunct1,
                THEN mp])
       (simp add: k(2) truthy_def ev(1) pf sl)
  have "\<exists>tg. tags_block ex_filtered ''node'' [4, 1] [5, 2] = Inr tg
          \<and> (tg \<noteq> None
               \<longleftrightarrow> (\<exists>k \<in> set [4, 1]. set_has [JString ''name'']
                                          (js_index (strings ex_filtered) k)))
          \<and> (\<forall>t. tg = Some t
                \<longrightarrow> map_of t = last_value (map (\<lambda>(k, v). (prop_name k, v))
                                   (filter (\<lambda>(k, v). set_has [JString ''name''] k)
                                      (decoded_pairs (strings ex_filtered) [4, 1] [5, 2]))))"
    by (rule T [where kind = "''node''" and keys = "[4, 1]" and vals = "[5, 2]"
                  and S = "[JString ''name'']",
                THEN conjunct2, THEN conjunct2, THEN conjunct1, THEN mp])
       (simp add: k(3) pf)
  then have b4: "tags_block ex_filtered ''node'' [4, 1] [5, 2] \<noteq> Inr None"
    by (auto simp: g js_index_def set_has_def)
  obtain xn where xn: "parse_node ex_filtered ?n = Inr xn"
    and xns: "node_id xn = 1" "node_lat xn = 59" "node_lon xn = 10" "node_info xn = None"
    by (simp add: parse_node_def ev info_block_def scale_def g)
  have "tags_block ex_filtered ''node'' (n_keys ?n) (n_vals ?n) = Inr (node_tags xn)"
    by (rule T [where n = ?n and xn = xn,
                THEN conjunct2, THEN conjunct2, THEN conjunct2, THEN conjunct2, THEN conjunct2,
                THEN conjunct1, THEN mp])
       (rule xn)
  with ev(2) have "node_tags xn = Some [(''name'', Some ''Oslo'')]" by simp
  with xns have "xn = \<lparr> node_id = 1, node_lat = 59, node_lon = 10,
                        node_tags = Some [(''name'', Some ''Oslo'')], node_info = None \<rparr>"
    by (cases xn) simp
  with xn have 4: "parse_node ex_filtered ?n
     = Inr \<lparr> node_id = 1, node_lat = 59, node_lon = 10,
             node_tags = Some [(''name'', Some ''Oslo'')], node_info = None \<rparr>"
    by simp
  have 5: "tags_block (ex_data\<lparr> dataTags := [(''node'', AllowSet [])] \<rparr>) ''node'' [1] [2]
       \<noteq> Inr (Some [(''name'', Some ''Oslo'')])"
    by (rule tag_filter_laws
            [where dat = "ex_data\<lparr> dataTags := [(''node'', AllowSet [])] \<rparr>"
               and kind = "''node''",
             THEN conjunct2, THEN conjunct2, THEN conjunct2, THEN conjunct1, THEN mp])
       (simp add: kind_opt_def)
  have tg: "tagging ex_filtered ?d"
    by (simp add: tagging_def k truthy_def)
  have sg: "segments (d_keys_vals ?d) 2 = Some ?pss"
    by (simp add: numeral_2_eq_2)
  obtain nodes where pd: "parse_dense ex_filtered ?d = Some (Inr nodes)"
    and sh: "map node_id nodes = [1, 2]" "map node_lat nodes = [59, 59]"
      "map node_lon nodes = [10, 10]" "map node_info nodes = [None, None]"
  proof -
    have io: "info_arrays_ok ex_filtered ?d" by (simp add: info_arrays_ok_def)
    have "tagging ex_filtered ?d
           \<longrightarrow> 0 \<le> a_j dense_init
               \<and> segments (drop (nat (a_j dense_init)) (d_keys_vals ?d)) 2 = Some ?pss"
      using sg by (simp add: dense_init_def)
    from dense_loop_ok [OF io _ _ _ this, of 0]
    obtain ns where ns: "dense_loop ex_filtered ?d [0 ..< length (d_id ?d)] dense_init
                           = Some (Inr ns)" "length ns = 2"
      and ok: "\<forall>k < 2. dense_node_ok ex_filtered ?d ?pss dense_init 0 k (ns ! k)"
      by auto
    from ns(2) obtain x0 x1 where l: "ns = [x0, x1]"
      by (auto simp: length_Suc_conv numeral_2_eq_2)
    from ok [rule_format, of 0] ok [rule_format, of 1]
    have m: "map node_id ns = [1, 2]" "map node_lat ns = [59, 59]"
      "map node_lon ns = [10, 10]" "map node_info ns = [None, None]"
      by (simp_all add: l dense_node_ok_def dense_init_def scale_def g)
    have "parse_dense ex_filtered ?d = Some (Inr ns)"
      using ns(1) by (simp add: parse_dense_def assertArrays3)
    then show ?thesis using m by (rule that)
  qed
  from sh(1) obtain x0 x1 where l: "nodes = [x0, x1]" by auto
  have dl: "k < length nodes
        \<Longrightarrow> \<exists>pss. segments (d_keys_vals ?d) (length nodes) = Some pss
                  \<and> tags_block ex_filtered ''node'' (map fst (pss ! k)) (map snd (pss ! k))
                      = Inr (node_tags (nodes ! k))" for k
    using T [where dense = ?d and nodes = nodes and i = k,
             THEN conjunct2, THEN conjunct2, THEN conjunct2, THEN conjunct2, THEN conjunct2,
             THEN conjunct2, THEN conjunct2, THEN conjunct2] pd tg
    by simp
  from dl [of 0] dl [of 1] sg ev(2,3)
  have "node_tags x0 = Some [(''name'', Some ''Oslo'')]" "node_tags x1 = None"
    by (simp_all add: l)
  with sh have "x0 = \<lparr> node_id = 1, node_lat = 59, node_lon = 10,
                       node_tags = Some [(''name'', Some ''Oslo'')], node_info = None \<rparr>"
    "x1 = \<lparr> node_id = 2, node_lat = 59, node_lon = 10, node_tags = None, node_info = None \<rparr>"
    by (simp_all add: l node_out_eqI)
  with pd l have 6: "parse_dense ex_filtered ?d
       = Some (Inr [\<lparr> node_id = 1, node_lat = 59, node_lon = 10,
                      node_tags = Some [(''name'', Some ''Oslo'')], node_info = None \<rparr>,
                    \<lparr> node_id = 2, node_lat = 59, node_lon = 10,
                      node_tags = None, node_info = None \<rparr>])"
    by simp
  from 1 2 3 4 5 6 ev(3) show ?thesis by simp
qed

subsection \<open>Framing: chunk boundaries\<close>

lemma starved_view:
  assumes "loop_inv buf p s"
  shows "starved buf s
           \<longleftrightarrow> needed s \<noteq> 0 \<and> int (length (drop (nat (offset s)) buf)) < needed s"
  using assms by (auto simp: starved_def loop_inv_def)

lemma readFields_view:
  assumes "loop_inv buf p s" "status s \<noteq> 0"
  shows "pbf_readFields env f init buf p
           = (if 0 < needed s
              then (case readFields env (take (nat (needed s)) (drop (nat (offset s)) buf)) of
                      Inl e \<Rightarrow> Inl e
                    | Inr fs \<Rightarrow> Inr (fold f fs init))
              else Inr init)"
  using assms by (auto simp: loop_inv_def aligned_def window_def pbf_readFields_def)

lemma readUInt32BE_view:
  assumes "0 \<le> off" "off + 4 \<le> int (length buf)"
  shows "readUInt32BE buf off = readUInt32BE (take 4 (drop (nat off) buf)) 0"
proof -
  have "nat off + 3 < length buf" using assms by linarith
  then show ?thesis using assms by (simp add: readUInt32BE_def)
qed

lemma readUInt32BE_nonneg: "readUInt32BE buf off = Inr l \<Longrightarrow> 0 \<le> l"
  by (auto simp: readUInt32BE_def split: if_splits)

lemma drop_add_int:
  assumes "0 \<le> a" "0 \<le> b"
  shows "drop (nat (a + b)) xs = drop (nat b) (drop (nat a) xs)"
  using assms by (simp add: nat_add_distrib add.commute)

lemma Blob_empty:
  "zlib_data Blob_init = None" "raw Blob_init = None"
  by (simp_all add: Blob_init_def)

lemma step0_view:
  assumes "loop_inv buf p s" "\<not> starved buf s" "status s = 0"
  shows "abs_step buf (step env w buf p s)
           = (case readUInt32BE (take 4 (drop (nat (offset s)) buf)) 0 of
                Inl e \<Rightarrow> ([], Some (Inl e))
              | Inr l \<Rightarrow> ([], Some (Inr (drop 4 (drop (nat (offset s)) buf), 1, l))))"
proof -
  from assms have r: "0 \<le> offset s" "offset s + 4 \<le> int (length buf)" "needed s = 4"
    by (auto simp: loop_inv_def starved_def)
  have d: "drop (nat (offset s + 4)) buf = drop 4 (drop (nat (offset s)) buf)"
    using drop_add_int [OF r(1), of 4 buf] by simp
  show ?thesis
    using assms(3) r(3) d
    by (simp add: step_def step0_def readUInt32BE_view [OF r(1,2)] abs_step_def view_def Let_def
          split: sum.splits)
qed

lemma step1_view:
  assumes "loop_inv buf p s" "\<not> starved buf s" "status s = 1"
  shows "abs_step buf (step env w buf p s)
           = (case (if 0 < needed s
                    then (case readFields env (take (nat (needed s)) (drop (nat (offset s)) buf)) of
                            Inl e \<Rightarrow> Inl e
                          | Inr fs \<Rightarrow> Inr (fold BlobHeader_readField fs BlobHeader_init))
                    else Inr BlobHeader_init) of
                Inl e \<Rightarrow> ([], Some (Inl e))
              | Inr header \<Rightarrow>
                  (case assert (htype header = ''OSMHeader'' \<or> htype header = ''OSMData'')
                               (Some ''input sequence error'') of
                     Inl e \<Rightarrow> ([], Some (Inl e))
                   | Inr _ \<Rightarrow>
                       ([], Some (Inr (drop (nat (needed s)) (drop (nat (offset s)) buf),
                                       if htype header = ''OSMHeader'' then 2 else 3,
                                       datasize header)))))"
proof -
  from assms have r: "0 \<le> offset s" "0 \<le> needed s" "status s \<noteq> 0"
    by (auto simp: loop_inv_def)
  note d = drop_add_int [OF r(1,2), of buf]
  show ?thesis
    using assms(3)
    by (simp add: step_def step1_def BlobHeader_read_def readFields_view [OF assms(1) r(3)]
          abs_step_def view_def d split: sum.splits)
qed

lemma step23_agree:
  assumes i: "loop_inv buf p s" and i': "loop_inv buf' p' s'"
    and v: "view buf s = view buf' s'"
    and st: "status s = 2 \<or> status s = 3"
  shows "abs_step buf (step env w buf p s) = abs_step buf' (step env w buf' p' s')"
proof -
  from v have e: "drop (nat (offset s')) buf' = drop (nat (offset s)) buf"
    "status s' = status s" "needed s' = needed s"
    by (simp_all add: view_def)
  from st e have nz: "status s \<noteq> 0" "status s' \<noteq> 0" by auto
  note rf = readFields_view [OF i nz(1)] readFields_view [OF i' nz(2)]
  show ?thesis
  proof (cases "0 < needed s")
    case False
    with st e show ?thesis
      by (auto simp: step_def step2_def step3_def Blob_read_def rf abs_step_def Blob_empty)
  next
    case True
    from i i' True e have "0 \<le> offset s" "0 \<le> needed s" "0 \<le> offset s'" "0 \<le> needed s'"
      by (auto simp: loop_inv_def)
    then have d: "drop (nat (offset s + needed s)) buf
                    = drop (nat (needed s)) (drop (nat (offset s)) buf)"
      "drop (nat (offset s' + needed s')) buf'
                    = drop (nat (needed s')) (drop (nat (offset s')) buf')"
      by (simp_all add: drop_add_int)
    from st show ?thesis
    proof
      assume "status s = 2"
      with e True d show ?thesis
        by (simp add: step_def step2_def Blob_read_def rf abs_step_def view_def
              split: sum.splits option.splits)
    next
      assume "status s = 3"
      with e True d show ?thesis
        by (simp add: step_def step3_def Blob_read_def rf abs_step_def view_def Let_def
              split: sum.splits option.splits)
    qed
  qed
qed

lemma step_agree:
  assumes i: "loop_inv buf p s" and i': "loop_inv buf' p' s'"
    and v: "view buf s = view buf' s'"
    and ns: "\<not> starved buf s"
  shows "abs_step buf (step env w buf p s) = abs_step buf' (step env w buf' p' s')"
proof -
  from v have e: "drop (nat (offset s')) buf' = drop (nat (offset s)) buf"
    "status s' = status s" "needed s' = needed s"
    by (simp_all add: view_def)
  from ns e have ns': "\<not> starved buf' s'"
    by (simp add: starved_view [OF i] starved_view [OF i'])
  from i have "status s = 0 \<or> status s = 1 \<or> status s = 2 \<or> status s = 3"
    by (auto simp: loop_inv_def)
  then consider "status s = 0" | "status s = 1" | "status s = 2 \<or> status s = 3" by auto
  then show ?thesis
  proof cases
    case 1
    with e have \<open>status s' = 0\<close> by simp
    show ?thesis
      by (simp only: step0_view [OF i ns 1] step0_view [OF i' ns' \<open>status s' = 0\<close>] e)
  next
    case 2
    with e have \<open>status s' = 1\<close> by simp
    show ?thesis
      by (simp only: step1_view [OF i ns 2] step1_view [OF i' ns' \<open>status s' = 1\<close>] e)
  next
    case 3
    from step23_agree [OF i i' v 3] show ?thesis .
  qed
qed

lemma step_inv:
  assumes i: "loop_inv buf p s" and ns: "\<not> starved buf s"
    and st: "step env w buf p s = (outs, Some (Inr (p', s')))"
  shows "loop_inv buf p' s'" "buffer s' = buffer s"
proof -
  from i have c: "status s = 0 \<or> status s = 1 \<or> status s = 2 \<or> status s = 3"
    by (auto simp: loop_inv_def)
  have "loop_inv buf p' s' \<and> buffer s' = buffer s"
    using c
  proof (elim disjE)
    assume "status s = 0"
    with i ns st show ?thesis
      by (auto simp: step_def step0_def loop_inv_def aligned_def starved_def advance_def Let_def
            dest: readUInt32BE_nonneg split: sum.splits)
  next
    assume "status s = 1"
    with i ns st show ?thesis
      by (auto simp: step_def step1_def loop_inv_def aligned_def starved_def advance_def
            split: sum.splits if_splits)
  next
    assume s2: "status s = 2"
    then have nz: "status s \<noteq> 0" by simp
    from s2 st have "0 < needed s"
      by (cases "0 < needed s")
         (auto simp: step_def step2_def Blob_read_def readFields_view [OF i nz] Blob_empty
            split: sum.splits option.splits)
    with s2 i ns st show ?thesis
      by (auto simp: step_def step2_def loop_inv_def aligned_def starved_def
            split: sum.splits option.splits)
  next
    assume s3: "status s = 3"
    then have nz: "status s \<noteq> 0" by simp
    from s3 st have "0 < needed s"
      by (cases "0 < needed s")
         (auto simp: step_def step3_def Blob_read_def readFields_view [OF i nz] Blob_empty
            split: sum.splits option.splits)
    with s3 i ns st show ?thesis
      by (auto simp: step_def step3_def loop_inv_def aligned_def starved_def Let_def
            split: sum.splits option.splits if_splits)
  qed
  then show "loop_inv buf p' s'" "buffer s' = buffer s" by simp_all
qed

lemma abs_step_cases:
  assumes "abs_step buf (step env w buf p s) = abs_step buf' (step env w buf' p' s')"
  obtains (hang) outs where "step env w buf p s = (outs, None)"
      "step env w buf' p' s' = (outs, None)"
    | (threw) outs e where "step env w buf p s = (outs, Some (Inl e))"
      "step env w buf' p' s' = (outs, Some (Inl e))"
    | (cont) outs p1 s1 p1' s1' where "step env w buf p s = (outs, Some (Inr (p1, s1)))"
      "step env w buf' p' s' = (outs, Some (Inr (p1', s1')))" "view buf s1 = view buf' s1'"
proof -
  obtain outs r where a: "step env w buf p s = (outs, r)" by (cases "step env w buf p s")
  obtain outs' r' where b: "step env w buf' p' s' = (outs', r')"
    by (cases "step env w buf' p' s'")
  from assms a b have o: "outs' = outs"
    and m: "map_option (map_sum id (\<lambda>(p, s). view buf s)) r
              = map_option (map_sum id (\<lambda>(p, s). view buf' s)) r'"
    by (simp_all add: abs_step_def)
  show ?thesis
  proof (cases r)
    case None
    with m have "r' = None" by simp
    with None a b o hang show ?thesis by simp
  next
    case (Some x)
    with m obtain x' where r': "r' = Some x'"
      and mx: "map_sum id (\<lambda>(p, s). view buf s) x = map_sum id (\<lambda>(p, s). view buf' s) x'"
      by (cases r') auto
    show ?thesis
    proof (cases x)
      case (Inl e)
      with mx have "x' = Inl e" by (cases x') auto
      with Inl Some r' a b o threw show ?thesis by simp
    next
      case (Inr y)
      with mx obtain y' where "x' = Inr y'"
        "(\<lambda>(p, s). view buf s) y = (\<lambda>(p, s). view buf' s) y'"
        by (cases x') auto
      with Inr Some r' a b o cont [of outs "fst y" "snd y" "fst y'" "snd y'"] show ?thesis
        by (simp add: case_prod_unfold)
    qed
  qed
qed

lemma drain_agree:
  "loop_inv buf p s \<Longrightarrow> loop_inv buf' p' s' \<Longrightarrow> view buf s = view buf' s'
   \<Longrightarrow> abs_result buf (drain env w buf p s) = abs_result buf' (drain env w buf' p' s')"
proof (induction env w buf p s arbitrary: buf' p' s' rule: drain.induct)
  case (1 env w buf p s)
  note i = "1.prems"(1) and i' = "1.prems"(2) and v = "1.prems"(3)
  from v have e: "drop (nat (offset s')) buf' = drop (nat (offset s)) buf"
    "status s' = status s" "needed s' = needed s"
    by (simp_all add: view_def)
  have sv: "starved buf' s' = starved buf s"
    using e by (simp add: starved_view [OF i] starved_view [OF i'])
  show ?case
  proof (cases "starved buf s")
    case True
    with sv v show ?thesis
      by (simp add: drain.simps [of env w buf p s] drain.simps [of env w buf' p' s']
            abs_result_def)
  next
    case False
    from step_agree [OF i i' v False, of env w] show ?thesis
    proof (cases rule: abs_step_cases)
      case (hang outs)
      with False sv show ?thesis
        by (simp add: drain.simps [of env w buf p s] drain.simps [of env w buf' p' s']
              abs_result_def)
    next
      case (threw outs e)
      with False sv show ?thesis
        by (simp add: drain.simps [of env w buf p s] drain.simps [of env w buf' p' s']
              abs_result_def)
    next
      case (cont outs p1 s1 p1' s1')
      from False sv have ns': "\<not> starved buf' s'" by simp
      have "abs_result buf (drain env w buf p1 s1) = abs_result buf' (drain env w buf' p1' s1')"
        using "1.IH" [OF False cont(1) [symmetric] refl refl refl
            step_inv(1) [OF i False cont(1)] step_inv(1) [OF i' ns' cont(2)] cont(3)] .
      with False sv cont(1,2) show ?thesis
        by (auto simp: drain.simps [of env w buf p s] drain.simps [of env w buf' p' s']
              abs_result_def split: prod.splits)
    qed
  qed
qed

lemma drain_frame:
  "drain env w buf p s = (outs, Some (Inr s')) \<Longrightarrow> loop_inv buf p s
   \<Longrightarrow> (\<exists>p'. loop_inv buf p' s') \<and> buffer s' = buffer s"
proof (induction env w buf p s arbitrary: outs rule: drain.induct)
  case (1 env w buf p s)
  show ?case
  proof (cases "starved buf s")
    case True
    with "1.prems" show ?thesis by (auto simp: drain.simps [of env w buf p s])
  next
    case False
    obtain o1 r1 where st: "step env w buf p s = (o1, r1)" by (cases "step env w buf p s")
    with False "1.prems"(1) obtain p1 s1 where r1: "r1 = Some (Inr (p1, s1))"
      by (auto simp: drain.simps [of env w buf p s] split: option.splits sum.splits)
    with False "1.prems"(1) st obtain o2 where d: "drain env w buf p1 s1 = (o2, Some (Inr s'))"
      by (auto simp: drain.simps [of env w buf p s] split: prod.splits)
    from st r1 have st': "step env w buf p s = (o1, Some (Inr (p1, s1)))" by simp
    from "1.IH" [OF False st' [symmetric] refl refl refl d step_inv(1) [OF "1.prems"(2) False st']]
      step_inv(2) [OF "1.prems"(2) False st']
    show ?thesis by simp
  qed
qed

lemma window_ext:
  assumes "plength p \<le> int (length buf)" "0 \<le> pos p"
  shows "window (buf @ ys) p = window buf p"
proof (cases "pos p < plength p")
  case True
  with assms have "nat (plength p - pos p) + nat (pos p) \<le> length buf" by linarith
  with True show ?thesis by (simp add: window_def)
next
  case False
  then show ?thesis by (simp add: window_def)
qed

lemma readUInt32BE_ext:
  assumes "0 \<le> off" "off + 4 \<le> int (length buf)"
  shows "readUInt32BE (buf @ ys) off = readUInt32BE buf off"
proof -
  have "nat off + 3 < length buf" using assms by linarith
  then show ?thesis using assms by (simp add: readUInt32BE_def nth_append)
qed

lemma step_ext:
  assumes i: "loop_inv buf p s" and ns: "\<not> starved buf s"
  shows "step env w (buf @ ys) p s = step env w buf p s"
proof (cases "status s = 0")
  case True
  with i ns have "0 \<le> offset s" "offset s + 4 \<le> int (length buf)"
    by (auto simp: loop_inv_def starved_def)
  with True show ?thesis by (simp add: step_def step0_def readUInt32BE_ext)
next
  case False
  with i ns have "plength p \<le> int (length buf)" "0 \<le> pos p"
    by (auto simp: loop_inv_def aligned_def starved_def)
  then have w: "window (buf @ ys) p = window buf p" by (rule window_ext)
  have "Blob_read env (buf @ ys) p = Blob_read env buf p"
    "BlobHeader_read env (buf @ ys) p = BlobHeader_read env buf p"
    by (simp_all add: Blob_read_def BlobHeader_read_def pbf_readFields_def w)
  with False show ?thesis
    by (simp add: step_def step1_def step2_def step3_def)
qed

lemma loop_inv_ext: "loop_inv buf p s \<Longrightarrow> loop_inv (buf @ ys) p s"
  by (auto simp: loop_inv_def)

lemma loop_inv_canon:
  assumes "loop_inv buf p s"
  shows "loop_inv bs (canon (status s) (needed s)) (frame_of (status s) (needed s))"
  using assms by (auto simp: loop_inv_def aligned_def canon_def frame_of_def)

lemma view_frame_of: "view bs (frame_of st nd) = (bs, st, nd)"
  by (simp add: view_def frame_of_def)

lemma drain_ext:
  "loop_inv buf p s
   \<Longrightarrow> abs_result (buf @ ys) (drain env w (buf @ ys) p s)
       = continue env w ys (abs_result buf (drain env w buf p s))"
proof (induction env w buf p s rule: drain.induct)
  case (1 env w buf p s)
  note i = "1.prems"
  show ?case
  proof (cases "starved buf s")
    case True
    have "abs_result (buf @ ys) (drain env w (buf @ ys) p s)
            = abs_result (drop (nat (offset s)) buf @ ys)
                (drain env w (drop (nat (offset s)) buf @ ys) (canon (status s) (needed s))
                   (frame_of (status s) (needed s)))"
      using i by (intro drain_agree loop_inv_ext loop_inv_canon [OF i])
                 (auto simp: view_def frame_of_def loop_inv_def)
    with True show ?thesis
      by (simp add: drain.simps [of env w buf p s] abs_result_def continue_def abs_run_def
            view_def)
  next
    case False
    then have ns': "\<not> starved (buf @ ys) s" by (auto simp: starved_def)
    note se = step_ext [OF i False, of env w ys]
    obtain o1 r1 where st: "step env w buf p s = (o1, r1)" by (cases "step env w buf p s")
    show ?thesis
    proof (cases r1)
      case None
      with False ns' st se show ?thesis
        by (simp add: drain.simps [of env w buf p s] drain.simps [of env w "buf @ ys" p s]
              abs_result_def continue_def)
    next
      case (Some x)
      show ?thesis
      proof (cases x)
        case (Inl e)
        with Some False ns' st se show ?thesis
          by (simp add: drain.simps [of env w buf p s] drain.simps [of env w "buf @ ys" p s]
                abs_result_def continue_def)
      next
        case (Inr y)
        obtain p1 s1 where y: "y = (p1, s1)" by (cases y)
        with Inr Some st have st': "step env w buf p s = (o1, Some (Inr (p1, s1)))" by simp
        have ih: "abs_result (buf @ ys) (drain env w (buf @ ys) p1 s1)
                    = continue env w ys (abs_result buf (drain env w buf p1 s1))"
          using "1.IH" [OF False st' [symmetric] refl refl refl step_inv(1) [OF i False st']] .
        obtain o2 r2 where d: "drain env w buf p1 s1 = (o2, r2)"
          by (cases "drain env w buf p1 s1")
        obtain o3 r3 where d': "drain env w (buf @ ys) p1 s1 = (o3, r3)"
          by (cases "drain env w (buf @ ys) p1 s1")
        from ih d d' have "(o3, map_option (map_sum id (view (buf @ ys))) r3)
              = continue env w ys (o2, map_option (map_sum id (view buf)) r2)"
          by (simp add: abs_result_def)
        then have "(o1 @ o3, map_option (map_sum id (view (buf @ ys))) r3)
              = continue env w ys (o1 @ o2, map_option (map_sum id (view buf)) r2)"
          by (auto simp: continue_def split: option.splits sum.splits prod.splits)
        with False ns' st' se d d' show ?thesis
          by (simp add: drain.simps [of env w buf p s] drain.simps [of env w "buf @ ys" p s]
                abs_result_def)
      qed
    qed
  qed
qed

lemma abs_run_append:
  assumes "st \<le> 3" "st = 0 \<longrightarrow> nd = 4" "st = 1 \<longrightarrow> 0 \<le> nd"
  shows "abs_run env w (rest, st, nd) (xs @ ys)
           = continue env w ys (abs_run env w (rest, st, nd) xs)"
proof -
  have "loop_inv (rest @ xs) (canon st nd) (frame_of st nd)"
    using assms by (auto simp: loop_inv_def aligned_def canon_def frame_of_def)
  from drain_ext [OF this, of ys env w] show ?thesis
    by (simp add: abs_run_def)
qed

lemma transform_drain:
  assumes "frame_ok s"
  shows "transform env w s c
           = drain env w (rest_of s @ c) (canon (status s) (needed s))
               (s\<lparr> buffer := Some (rest_of s @ c), offset := 0 \<rparr>)"
proof (cases "buffer s")
  case None
  with assms have "offset s = 0" by (simp add: frame_ok_def)
  then have "s\<lparr> buffer := Some c \<rparr> = s\<lparr> buffer := Some c, offset := 0 \<rparr>" by simp
  with None show ?thesis
    by (simp add: transform_def rest_of_def canon_def Let_def)
next
  case (Some b)
  with assms have "0 \<le> offset s" by (simp add: frame_ok_def)
  with Some show ?thesis
    by (simp add: transform_def rest_of_def canon_def subarray_def Let_def)
qed

lemma loop_inv_start:
  assumes "frame_ok s"
  shows "loop_inv bs (canon (status s) (needed s)) (s\<lparr> buffer := b, offset := 0 \<rparr>)"
  using assms by (auto simp: frame_ok_def loop_inv_def aligned_def canon_def)

lemma loop_inv_frame_ok:
  assumes "loop_inv buf p s" "buffer s = Some buf"
  shows "frame_ok s" "fview s = view buf s"
  using assms by (auto simp: loop_inv_def frame_ok_def fview_def view_def rest_of_def)

lemma transform_abs:
  assumes ok: "frame_ok s"
  shows "abs_frames (transform env w s c) = abs_run env w (fview s) c"
    and "transform env w s c = (outs, Some (Inr s')) \<Longrightarrow> frame_ok s' \<and> buffer s' \<noteq> None"
proof -
  let ?buf = "rest_of s @ c"
  let ?p = "canon (status s) (needed s)"
  let ?s = "s\<lparr> buffer := Some ?buf, offset := 0 \<rparr>"
  note t = transform_drain [OF ok, of env w c]
  have i: "loop_inv ?buf ?p ?s" by (rule loop_inv_start [OF ok])
  have fr: "frame_ok x \<and> fview x = view ?buf x \<and> buffer x \<noteq> None"
    if "drain env w ?buf ?p ?s = (o1, Some (Inr x))" for o1 x
  proof -
    from drain_frame [OF that i] obtain p' where "loop_inv ?buf p' x" "buffer x = Some ?buf"
      by auto
    with loop_inv_frame_ok [OF this] show ?thesis by simp
  qed
  obtain o1 r1 where d: "drain env w ?buf ?p ?s = (o1, r1)" by (cases "drain env w ?buf ?p ?s")
  have "map_option (map_sum id fview) r1 = map_option (map_sum id (view ?buf)) r1"
  proof (cases r1)
    case None
    then show ?thesis by simp
  next
    case (Some x)
    show ?thesis
    proof (cases x)
      case (Inl e)
      with Some show ?thesis by simp
    next
      case (Inr y)
      with Some d fr [of o1 y] show ?thesis by simp
    qed
  qed
  with d have "abs_frames (drain env w ?buf ?p ?s) = abs_result ?buf (drain env w ?buf ?p ?s)"
    by (simp add: abs_frames_def abs_result_def)
  also have "\<dots> = abs_result ?buf (drain env w ?buf ?p (frame_of (status s) (needed s)))"
    by (rule drain_agree [OF i loop_inv_canon [OF i, simplified]])
       (simp add: view_def frame_of_def)
  finally show "abs_frames (transform env w s c) = abs_run env w (fview s) c"
    by (simp add: t abs_run_def fview_def)
  show "frame_ok s' \<and> buffer s' \<noteq> None" if "transform env w s c = (outs, Some (Inr s'))"
    using that fr [of outs s'] by (simp add: t)
qed

lemma frame_ok_view:
  "frame_ok s \<Longrightarrow> status s \<le> 3 \<and> (status s = 0 \<longrightarrow> needed s = 4)
                   \<and> (status s = 1 \<longrightarrow> 0 \<le> needed s)"
  by (simp add: frame_ok_def)

lemma feed_abs:
  "frame_ok s \<Longrightarrow> cs \<noteq> []
   \<Longrightarrow> abs_frames (feed env w s cs) = abs_run env w (fview s) (concat cs)
       \<and> (\<forall>outs s'. feed env w s cs = (outs, Some (Inr s'))
             \<longrightarrow> frame_ok s' \<and> buffer s' \<noteq> None)"
proof (induction cs arbitrary: s)
  case Nil
  then show ?case by simp
next
  case (Cons c cs)
  note ok = Cons.prems(1)
  note ta = transform_abs [OF ok, of env w c]
  obtain o1 r1 where t: "transform env w s c = (o1, r1)" by (cases "transform env w s c")
  have a0: "abs_run env w (fview s) c = (o1, map_option (map_sum id fview) r1)"
    using ta(1) t by (simp add: abs_frames_def)
  show ?case
  proof (cases cs)
    case Nil
    show ?thesis
    proof (cases r1)
      case None
      with t Nil a0 show ?thesis by (simp add: abs_frames_def)
    next
      case (Some x)
      show ?thesis
      proof (cases x)
        case (Inl e)
        with Some t Nil a0 show ?thesis by (simp add: abs_frames_def)
      next
        case (Inr s1)
        with Some t Nil a0 ta(2) [of o1 s1] show ?thesis by (simp add: abs_frames_def)
      qed
    qed
  next
    case (Cons c' cs')
    then have ne: "cs \<noteq> []" by simp
    from frame_ok_view [OF ok]
    have app: "abs_run env w (fview s) (c @ concat cs)
                 = continue env w (concat cs) (abs_run env w (fview s) c)"
      unfolding fview_def by (intro abs_run_append) simp_all
    show ?thesis
    proof (cases r1)
      case None
      with t a0 app show ?thesis by (simp add: abs_frames_def continue_def)
    next
      case (Some x)
      show ?thesis
      proof (cases x)
        case (Inl e)
        with Some t a0 app show ?thesis by (simp add: abs_frames_def continue_def)
      next
        case (Inr s1)
        with Some t have t': "transform env w s c = (o1, Some (Inr s1))" by simp
        from ta(2) [OF t'] have ok1: "frame_ok s1" by simp
        note ih = Cons.IH [OF ok1 ne]
        obtain o2 r2 where f: "feed env w s1 cs = (o2, r2)" by (cases "feed env w s1 cs")
        from a0 Some Inr have a1: "abs_run env w (fview s) c = (o1, Some (Inr (fview s1)))"
          by simp
        from ih f have a2: "abs_run env w (fview s1) (concat cs)
                              = (o2, map_option (map_sum id fview) r2)"
          by (simp add: abs_frames_def)
        from ih f have fr: "\<forall>s'. r2 = Some (Inr s') \<longrightarrow> frame_ok s' \<and> buffer s' \<noteq> None"
          by simp
        from t' f have "feed env w s (c # cs) = (o1 @ o2, r2)" by simp
        with app a1 a2 fr show ?thesis by (simp add: abs_frames_def continue_def)
      qed
    qed
  qed
qed

lemma flush_view:
  assumes "frame_ok s" "buffer s \<noteq> None"
  shows "flush s = (if rest_of s = [] \<and> status s = 0 then Inr ()
                    else Inl (Error ''input format error''))"
  using assms by (auto simp: flush_def assert_def frame_ok_def rest_of_def)

lemma frame_init_ok: "frame_ok frame_init" "fview frame_init = ([], 0, 4)"
  by (simp_all add: frame_ok_def frame_init_def fview_def rest_of_def)

lemma decode_abs:
  assumes "cs \<noteq> []"
  shows "decode env w cs = finish (abs_run env w ([], 0, 4) (concat cs))"
proof -
  note fa = feed_abs [OF frame_init_ok(1) assms, of env w, unfolded frame_init_ok(2)]
  obtain outs r where f: "feed env w frame_init cs = (outs, r)"
    by (cases "feed env w frame_init cs")
  from fa f have a: "abs_run env w ([], 0, 4) (concat cs) = (outs, map_option (map_sum id fview) r)"
    by (simp add: abs_frames_def)
  show ?thesis
  proof (cases r)
    case None
    with f a show ?thesis by (simp add: decode_def finish_def)
  next
    case (Some x)
    show ?thesis
    proof (cases x)
      case (Inl e)
      with Some f a show ?thesis by (simp add: decode_def finish_def)
    next
      case (Inr s)
      with Some f fa have "frame_ok s" "buffer s \<noteq> None" by simp_all
      from flush_view [OF this] Inr Some f a show ?thesis
        by (simp add: decode_def finish_def fview_def)
    qed
  qed
qed

lemma transform_starved:
  assumes "frame_ok s" "needed s \<noteq> 0" "int (length (rest_of s @ c)) < needed s"
  shows "transform env w s c
           = ([], Some (Inr (s\<lparr> buffer := Some (rest_of s @ c), offset := 0 \<rparr>)))"
  using assms(2,3)
  by (simp add: transform_drain [OF assms(1)] drain.simps starved_def)

text \<open>
  C1.  Whatever the collaborators do, feeding the chunks one after the other pushes the
  same values in the same order as feeding their concatenation as one chunk, and for at
  least one chunk the whole run, end of input included, has the same outcome (accepted,
  the same error, or no return).  While fewer bytes than \<open>needed\<close> are at hand, \<open>_transform\<close>
  only appends the chunk: nothing is pushed and \<open>status\<close> and \<open>needed\<close> stay as they are.
\<close>

theorem chunk_independence:
  "fst (decode env w cs) = fst (decode env w [concat cs])
   \<and> (cs \<noteq> [] \<longrightarrow> decode env w cs = decode env w [concat cs])
   \<and> (frame_ok s \<and> needed s \<noteq> 0 \<and> int (length (rest_of s @ c)) < needed s
      \<longrightarrow> transform env w s c
            = ([], Some (Inr (s\<lparr> buffer := Some (rest_of s @ c), offset := 0 \<rparr>))))"
proof (intro conjI impI)
  show eq: "decode env w cs = decode env w [concat cs]" if "cs \<noteq> []"
    using decode_abs [OF that, of env w] decode_abs [of "[concat cs]" env w] by simp
  show "fst (decode env w cs) = fst (decode env w [concat cs])"
  proof (cases cs)
    case Nil
    have "transform env w frame_init [] = ([], Some (Inr (frame_init\<lparr> buffer := Some [], offset := 0 \<rparr>)))"
      using transform_starved [OF frame_init_ok(1), of "[]" env w]
      by (simp add: frame_init_def rest_of_def)
    with Nil show ?thesis by (simp add: decode_def)
  next
    case (Cons c cs')
    then show ?thesis using eq by simp
  qed
  show "transform env w s c
            = ([], Some (Inr (s\<lparr> buffer := Some (rest_of s @ c), offset := 0 \<rparr>)))"
    if "frame_ok s \<and> needed s \<noteq> 0 \<and> int (length (rest_of s @ c)) < needed s"
    using that transform_starved by blast
qed

text \<open>A header frame and a data frame in five chunks, one of them empty.\<close>

theorem chunk_independence_witness:
  "decode ex_env ex_with
     [[0, 0, 0], [2, 0x10, 0x31, 0x10, 0, 0], [], [0, 2, 0x11], [0x31, 0x30]]
     = ([HeaderOut (), BatchOut []], Some (Inr ()))
   \<and> decode ex_env ex_with
       [[0, 0, 0, 2, 0x10, 0x31, 0x10, 0, 0, 0, 2, 0x11, 0x31, 0x30]]
     = ([HeaderOut (), BatchOut []], Some (Inr ()))
   \<and> transform ex_env ex_with frame_init [0, 0]
     = ([], Some (Inr \<lparr> buffer = Some [0, 0], offset = 0, status = 0, needed = 4 \<rparr>))"
proof -
  let ?cs = "[[0, 0, 0], [2, 0x10, 0x31, 0x10, 0, 0], [], [0, 2, 0x11], [0x31, 0x30]]
               :: byte list list"
  note t = chunk_independence [of ex_env ex_with ?cs frame_init "[0, 0]"]
  have one: "decode ex_env ex_with [concat ?cs] = ([HeaderOut (), BatchOut []], Some (Inr ()))"
    by code_simp
  have "?cs \<noteq> []" by simp
  with t have "decode ex_env ex_with ?cs = decode ex_env ex_with [concat ?cs]" by blast
  with one have 1: "decode ex_env ex_with ?cs = ([HeaderOut (), BatchOut []], Some (Inr ()))"
    by simp
  have "frame_ok frame_init \<and> needed frame_init \<noteq> 0
          \<and> int (length (rest_of frame_init @ [0, 0 :: byte])) < needed frame_init"
    by (simp add: frame_ok_def frame_init_def rest_of_def)
  with t have "transform ex_env ex_with frame_init [0, 0]
     = ([], Some (Inr (frame_init\<lparr> buffer := Some (rest_of frame_init @ [0, 0]),
                                   offset := 0 \<rparr>)))"
    by blast
  then have 3: "transform ex_env ex_with frame_init [0, 0]
     = ([], Some (Inr \<lparr> buffer = Some [0, 0], offset = 0, status = 0, needed = 4 \<rparr>))"
    by (simp add: frame_init_def rest_of_def)
  from 1 one 3 show ?thesis by simp
qed

end
